theory Spec2Isabelle
  imports Main
begin

section \<open>Errors and Python dictionaries\<close>

text \<open>
  The exceptions the two services raise or let through.  \<open>KeyError\<close> is Python's own
  (a missing dictionary key); \<open>OtherError\<close> stands for any exception of a collaborator
  that the services neither raise themselves nor catch by name.
\<close>

datatype error =
    EosExperimentDoesNotExistError
  | EosExperimentExecutionError
  | EosExperimentTypeInUseError
  | EosConfigurationError
  | KeyError string
  | OtherError string

text \<open>
  A Python \<open>dict\<close> keeps insertion order, so it is an association list whose keys are
  pairwise distinct.  Each operation below is the Python operation of the same name.
\<close>

type_synonym ('k, 'v) dict = "('k \<times> 'v) list"

definition dict_keys :: "('k, 'v) dict \<Rightarrow> 'k list" where
  "dict_keys d = map fst d"

definition dict_contains :: "'k \<Rightarrow> ('k, 'v) dict \<Rightarrow> bool" where
  "dict_contains k d = (k \<in> set (dict_keys d))"

text \<open>\<open>d[k] = v\<close>: an existing key keeps its position, a new key goes last.\<close>

definition dict_set :: "'k \<Rightarrow> 'v \<Rightarrow> ('k, 'v) dict \<Rightarrow> ('k, 'v) dict" where
  "dict_set k v d =
     (if dict_contains k d then map (\<lambda>(k', v'). if k' = k then (k', v) else (k', v')) d
      else d @ [(k, v)])"

text \<open>\<open>d.pop(k, None)\<close>: never raises.\<close>

definition dict_pop :: "'k \<Rightarrow> ('k, 'v) dict \<Rightarrow> ('k, 'v) dict" where
  "dict_pop k d = filter (\<lambda>(k', v'). k' \<noteq> k) d"

text \<open>\<open>del d[k]\<close>: raises \<open>KeyError\<close> on a missing key.\<close>

definition dict_del :: "string \<Rightarrow> (string, 'v) dict \<Rightarrow> error + (string, 'v) dict" where
  "dict_del k d = (if dict_contains k d then Inr (dict_pop k d) else Inl (KeyError k))"

text \<open>\<open>d[k]\<close>: raises \<open>KeyError\<close> on a missing key.\<close>

definition dict_get :: "string \<Rightarrow> (string, 'v) dict \<Rightarrow> error + 'v" where
  "dict_get k d = (case map_of d k of None \<Rightarrow> Inl (KeyError k) | Some v \<Rightarrow> Inr v)"

text \<open>
  \<open>sorted(xs, key=key, reverse=reverse)\<close>.  Python's sort is stable; with
  \<open>reverse=True\<close> it reverses the list, sorts it stably in ascending order and
  reverses the result, which keeps elements with equal keys in their original order.
\<close>

definition py_sorted :: "('a \<Rightarrow> int) \<Rightarrow> bool \<Rightarrow> 'a list \<Rightarrow> 'a list" where
  "py_sorted key reverse xs =
     (if reverse then rev (sort_key key (rev xs)) else sort_key key xs)"


section \<open>The experiment service\<close>

subsection \<open>Experiment definitions and executors\<close>

text \<open>
  Modelled from the spec: the class \<open>ExperimentDefinition\<close> is not among the sources.
  The service reads the id and the type of a definition, and the priority through the
  executor; the type-specific parameters play no part in it.
\<close>

record experiment_definition =
  def_id :: string
  def_type :: string
  def_priority :: int

text \<open>
  Modelled from the spec: the class \<open>ExperimentExecutor\<close> is not among the sources.
  The executor is a collaborator of the service: one object per submitted experiment,
  with the methods \<open>start_experiment\<close>, \<open>progress_experiment\<close> and
  \<open>cancel_experiment\<close>.  Its behaviour is a parameter of the model: what the start
  does, what the n-th call of progress returns or raises, and what the n-th call of
  cancel does.  The counters record the calls that were made on the object.
\<close>

record experiment_executor =
  executor_definition :: experiment_definition
  start_behaviour :: "error option"
  progress_behaviour :: "nat \<Rightarrow> error + bool"
  cancel_behaviour :: "nat \<Rightarrow> error option"
  start_calls :: nat
  progress_calls :: nat
  cancel_calls :: nat

definition start_experiment :: "experiment_executor \<Rightarrow> error option \<times> experiment_executor" where
  "start_experiment ex = (start_behaviour ex, ex\<lparr>start_calls := start_calls ex + 1\<rparr>)"

definition progress_experiment :: "experiment_executor \<Rightarrow> (error + bool) \<times> experiment_executor" where
  "progress_experiment ex =
     (progress_behaviour ex (progress_calls ex), ex\<lparr>progress_calls := progress_calls ex + 1\<rparr>)"

definition executor_cancel :: "experiment_executor \<Rightarrow> error option \<times> experiment_executor" where
  "executor_cancel ex =
     (cancel_behaviour ex (cancel_calls ex), ex\<lparr>cancel_calls := cancel_calls ex + 1\<rparr>)"

subsection \<open>The state of the service\<close>

text \<open>
  The calls the service makes on executors and the removals from the registry, in the
  order in which they happen.
\<close>

datatype event =
    Created string
  | Started string
  | Progressed string
  | Cancel_called string
  | Removed string

text \<open>
  The service runs on one event loop.  Each function below is one call, from its start
  to its return or exception, with no other coroutine of the service in between; the
  submission lock and the database sessions, which are opened per call and hold no state
  of the service, are left out.

  \<open>configuration_experiments\<close> are the keys of \<open>configuration_manager.experiments\<close>, the
  loaded experiment types.  \<open>submitted_experiments\<close> is the registry,
  \<open>experiment_cancellation_queue\<close> the \<open>asyncio.Queue(maxsize=100)\<close>.
\<close>

record experiment_service =
  configuration_experiments :: "string list"
  submitted_experiments :: "(string, experiment_executor) dict"
  experiment_cancellation_queue :: "string list"
  events :: "event list"

definition queue_maxsize :: nat where
  "queue_maxsize = 100"

definition log_event :: "event \<Rightarrow> experiment_service \<Rightarrow> experiment_service" where
  "log_event e s = s\<lparr>events := events s @ [e]\<rparr>"

text \<open>
  An executor object is shared between the registry and whoever holds a reference to it:
  a call on the object is seen through the registry.  \<open>store_executor\<close> writes the
  object's new state back under its id.
\<close>

definition store_executor :: "string \<Rightarrow> experiment_executor \<Rightarrow> experiment_service \<Rightarrow> experiment_service" where
  "store_executor i ex s =
     s\<lparr>submitted_experiments :=
         map (\<lambda>(k, v). if k = i then (k, ex) else (k, v)) (submitted_experiments s)\<rparr>"

subsection \<open>submit_experiment\<close>

definition validate_experiment_type :: "string \<Rightarrow> experiment_service \<Rightarrow> error option" where
  "validate_experiment_type t s =
     (if t \<notin> set (configuration_experiments s) then Some EosExperimentDoesNotExistError else None)"

text \<open>
  \<open>create\<close> is \<open>experiment_executor_factory.create\<close>.  The result is the exception
  that reaches the caller, if any, and the state the call leaves behind.
\<close>

definition submit_experiment ::
  "(experiment_definition \<Rightarrow> experiment_executor) \<Rightarrow> experiment_definition \<Rightarrow>
   experiment_service \<Rightarrow> error option \<times> experiment_service" where
  "submit_experiment create d s =
     (let experiment_id = def_id d; experiment_type = def_type d in
      case validate_experiment_type experiment_type s of
        Some e \<Rightarrow> (Some e, s)
      | None \<Rightarrow>
          if dict_contains experiment_id (submitted_experiments s) then (None, s)
          else
            let s1 = log_event (Created experiment_id) s;
                (r, ex) = start_experiment (create d);
                s2 = log_event (Started experiment_id) s1
            in (case r of
                  None \<Rightarrow>
                    (None, s2\<lparr>submitted_experiments :=
                                dict_set experiment_id ex (submitted_experiments s2)\<rparr>)
                | Some e \<Rightarrow>
                    if e = EosExperimentExecutionError
                    then (Some e, s2\<lparr>submitted_experiments :=
                                       dict_pop experiment_id (submitted_experiments s2)\<rparr>)
                    else (Some e, s2)))"

subsection \<open>cancel_experiment\<close>

text \<open>
  \<open>queue.put\<close> on a full queue suspends the caller until there is room: \<open>None\<close> is
  the call that does not return while the queue stays full.
\<close>

definition cancel_experiment :: "string \<Rightarrow> experiment_service \<Rightarrow> experiment_service option" where
  "cancel_experiment experiment_id s =
     (if dict_contains experiment_id (submitted_experiments s) then
        (if length (experiment_cancellation_queue s) < queue_maxsize
         then Some (s\<lparr>experiment_cancellation_queue :=
                        experiment_cancellation_queue s @ [experiment_id]\<rparr>)
         else None)
      else Some s)"

subsection \<open>process_experiments\<close>

definition executor_priority :: "string \<times> experiment_executor \<Rightarrow> int" where
  "executor_priority x = def_priority (executor_definition (snd x))"

definition get_sorted_experiments :: "experiment_service \<Rightarrow> (string \<times> experiment_executor) list" where
  "get_sorted_experiments s =
     (let experiment_priorities =
            map (\<lambda>(exp_id, executor). (exp_id, def_priority (executor_definition executor)))
                (submitted_experiments s)
      in py_sorted (\<lambda>x. the (map_of experiment_priorities (fst x))) True
           (submitted_experiments s))"

text \<open>
  The loop over the sorted snapshot.  Only \<open>EosExperimentExecutionError\<close> is caught;
  any other exception leaves the loop and the function at once.  The registry keeps
  its keys during the loop: the two lists collect the ids to remove.
\<close>

fun progress_all ::
  "(string \<times> experiment_executor) list \<Rightarrow> string list \<Rightarrow> string list \<Rightarrow> experiment_service \<Rightarrow>
   error option \<times> string list \<times> string list \<times> experiment_service" where
  "progress_all [] completed_experiments failed_experiments s =
     (None, completed_experiments, failed_experiments, s)"
| "progress_all ((experiment_id, executor) # rest) completed_experiments failed_experiments s =
     (let (r, ex) = progress_experiment executor;
          s1 = store_executor experiment_id ex (log_event (Progressed experiment_id) s)
      in case r of
           Inr completed \<Rightarrow>
             progress_all rest
               (if completed then completed_experiments @ [experiment_id]
                else completed_experiments)
               failed_experiments s1
         | Inl e \<Rightarrow>
             if e = EosExperimentExecutionError
             then progress_all rest completed_experiments (failed_experiments @ [experiment_id]) s1
             else (Some e, completed_experiments, failed_experiments, s1))"

text \<open>\<open>for experiment_id in ids: del self._submitted_experiments[experiment_id]\<close>\<close>

fun delete_all :: "string list \<Rightarrow> experiment_service \<Rightarrow> error option \<times> experiment_service" where
  "delete_all [] s = (None, s)"
| "delete_all (experiment_id # ids) s =
     (case dict_del experiment_id (submitted_experiments s) of
        Inl e \<Rightarrow> (Some e, s)
      | Inr d \<Rightarrow>
          delete_all ids (log_event (Removed experiment_id) (s\<lparr>submitted_experiments := d\<rparr>)))"

definition process_experiments :: "experiment_service \<Rightarrow> error option \<times> experiment_service" where
  "process_experiments s =
     (if submitted_experiments s = [] then (None, s)
      else
        let sorted_experiments = get_sorted_experiments s;
            (r, completed_experiments, failed_experiments, s1) =
              progress_all sorted_experiments [] [] s
        in case r of
             Some e \<Rightarrow> (Some e, s1)
           | None \<Rightarrow>
               (case delete_all completed_experiments s1 of
                  (Some e, s2) \<Rightarrow> (Some e, s2)
                | (None, s2) \<Rightarrow> delete_all failed_experiments s2))"

subsection \<open>process_experiment_cancellations\<close>

text \<open>
  \<open>while not queue.empty(): experiment_ids.append(await queue.get())\<close>.  A \<open>get\<close> on
  a queue that is not empty returns without suspending, so the loop takes every id that
  is queued when it starts and leaves the queue empty.
\<close>

fun drain_queue :: "string list \<Rightarrow> string list \<Rightarrow> string list \<times> string list" where
  "drain_queue [] experiment_ids = (experiment_ids, [])"
| "drain_queue (x # queue) experiment_ids = drain_queue queue (experiment_ids @ [x])"

text \<open>
  \<open>asyncio.gather\<close> over one \<open>cancel\<close> coroutine per drained id.  Every coroutine is
  started; the registry lookup of a missing id raises \<open>KeyError\<close>.  Without
  \<open>return_exceptions\<close> the \<open>await\<close> raises as soon as one coroutine has raised, and
  the other coroutines run on.  The model issues the calls in list order and reports
  the error of the first id in that order that fails.
\<close>

fun gather_cancel :: "string list \<Rightarrow> experiment_service \<Rightarrow> error option \<times> experiment_service" where
  "gather_cancel [] s = (None, s)"
| "gather_cancel (exp_id # ids) s =
     (case dict_get exp_id (submitted_experiments s) of
        Inl e \<Rightarrow> (Some e, snd (gather_cancel ids s))
      | Inr executor \<Rightarrow>
          let (r, ex) = executor_cancel executor;
              s1 = store_executor exp_id ex (log_event (Cancel_called exp_id) s);
              (r', s2) = gather_cancel ids s1
          in (case r of Some e \<Rightarrow> Some e | None \<Rightarrow> r', s2))"

text \<open>
  The part of the call after the drain loop: the early return, the gather and the
  deletions.  The queue is not read again.
\<close>

definition cancel_drained :: "string list \<Rightarrow> experiment_service \<Rightarrow> error option \<times> experiment_service" where
  "cancel_drained experiment_ids s =
     (if experiment_ids = [] then (None, s)
      else
        case gather_cancel experiment_ids s of
          (Some e, s1) \<Rightarrow> (Some e, s1)
        | (None, s1) \<Rightarrow> delete_all experiment_ids s1)"

definition process_experiment_cancellations :: "experiment_service \<Rightarrow> error option \<times> experiment_service" where
  "process_experiment_cancellations s =
     (let (experiment_ids, queue) = drain_queue (experiment_cancellation_queue s) []
      in cancel_drained experiment_ids (s\<lparr>experiment_cancellation_queue := queue\<rparr>))"


section \<open>The loading service\<close>

subsection \<open>Persisted entities and configuration\<close>

text \<open>
  Modelled from the spec: the classes \<open>Experiment\<close>, \<open>Task\<close>, their status
  enumerations and the experiment configuration are not among the sources.  These are
  the entities the loading service reads: the experiments and tasks that the experiment
  and task managers return, with the fields the service looks at, and the labs of an
  experiment configuration.  A task's \<open>experiment_id\<close> may be \<open>None\<close>, empty or \<open>on_demand\<close>;
  all three mark a standalone task.
\<close>

datatype experiment_status = EXP_CREATED | EXP_RUNNING | EXP_COMPLETED | EXP_FAILED | EXP_CANCELLED

datatype task_status = TASK_CREATED | TASK_RUNNING | TASK_COMPLETED | TASK_FAILED

record experiment_entity =
  experiment_id :: string
  experiment_type :: string
  experiment_status :: experiment_status

record device_config =
  device_lab :: string
  device_id :: string

record task =
  task_id :: string
  task_type :: string
  task_experiment_id :: "string option"
  task_status :: task_status
  task_devices :: "device_config list"

record experiment_config =
  config_labs :: "string list"

text \<open>
  What the service reads and what its collaborators change.  \<open>cfg_experiments\<close> is
  \<open>configuration_manager.experiments\<close>, \<open>cfg_labs\<close> the loaded labs;
  \<open>db_experiments\<close> and \<open>db_tasks\<close> are the rows behind the managers' queries.  The
  last three fields stand for the state of the device manager, the container manager and
  the device plugin registry.
\<close>

record world =
  cfg_experiments :: "(string, experiment_config) dict"
  cfg_labs :: "string list"
  db_experiments :: "experiment_entity list"
  db_tasks :: "task list"
  device_manager_labs :: "string list"
  container_manager_labs :: "string list"
  device_plugin_reloads :: "string list"

text \<open>
  The configuration manager, the device manager and the container manager are
  collaborators of the service; what their methods do is a parameter of the model.  A
  method either raises or returns the world it leaves behind.  \<open>read_lab_config\<close>
  returns the types of \<open>lab_config.devices.values()\<close>.
\<close>

record collaborators =
  read_lab_config :: "string \<Rightarrow> world \<Rightarrow> error + string list"
  reload_plugin :: "string \<Rightarrow> world \<Rightarrow> error + world"
  cm_load_labs :: "string list \<Rightarrow> world \<Rightarrow> error + world"
  cm_unload_labs :: "string list \<Rightarrow> world \<Rightarrow> error + world"
  cm_load_experiments :: "string list \<Rightarrow> world \<Rightarrow> error + world"
  update_devices_loaded :: "string list \<Rightarrow> world \<Rightarrow> error + world"
  update_devices_unloaded :: "string list \<Rightarrow> world \<Rightarrow> error + world"
  update_containers_loaded :: "string list \<Rightarrow> world \<Rightarrow> error + world"
  update_containers_unloaded :: "string list \<Rightarrow> world \<Rightarrow> error + world"

subsection \<open>Steps, the loading lock and the record of calls\<close>

text \<open>
  Every usage check, every call of a collaborator and every acquisition and release of
  \<open>_loading_lock\<close> is recorded, in the order in which it happens.
\<close>

datatype call =
    Lock_acquire
  | Lock_release
  | Check_lab_usage string
  | Read_lab_config string
  | Reload_plugin string
  | Cm_load_labs "string list"
  | Cm_unload_labs "string list"
  | Cm_load_experiments "string list"
  | Update_devices_loaded "string list"
  | Update_devices_unloaded "string list"
  | Update_containers_loaded "string list"
  | Update_containers_unloaded "string list"

type_synonym loading_state = "world \<times> call list"
type_synonym step = "loading_state \<Rightarrow> error option \<times> loading_state"

definition record_call :: "call \<Rightarrow> loading_state \<Rightarrow> loading_state" where
  "record_call c st = (fst st, snd st @ [c])"

definition collaborator_call :: "call \<Rightarrow> (world \<Rightarrow> error + world) \<Rightarrow> step" where
  "collaborator_call c f st =
     (case f (fst st) of
        Inl e \<Rightarrow> (Some e, record_call c st)
      | Inr w \<Rightarrow> (None, (w, snd st @ [c])))"

text \<open>Statements one after the other: the first exception ends the sequence.\<close>

fun in_sequence :: "step list \<Rightarrow> step" where
  "in_sequence [] st = (None, st)"
| "in_sequence (p # ps) st =
     (case p st of (Some e, st1) \<Rightarrow> (Some e, st1) | (None, st1) \<Rightarrow> in_sequence ps st1)"

text \<open>
  \<open>async with self._loading_lock\<close>: the lock is released on every way out of the
  block, also when the block raises.
\<close>

definition with_loading_lock :: "step \<Rightarrow> step" where
  "with_loading_lock body st =
     (let (r, st1) = body (record_call Lock_acquire st) in (r, record_call Lock_release st1))"

subsection \<open>Usage checks\<close>

text \<open>
  Modelled from the spec: the experiment manager and the task manager are not among the
  sources.  These are their status-filtered queries, \<open>get_experiments(db, status=...)\<close>
  and \<open>get_tasks(db, status=...)\<close>.
\<close>

definition get_experiments :: "experiment_status \<Rightarrow> world \<Rightarrow> experiment_entity list" where
  "get_experiments status w = filter (\<lambda>e. experiment_status e = status) (db_experiments w)"

definition get_tasks :: "task_status \<Rightarrow> world \<Rightarrow> task list" where
  "get_tasks status w = filter (\<lambda>t. task_status t = status) (db_tasks w)"

text \<open>
  The list comprehension of \<open>_check_experiments_using_lab\<close>: the lookup
  \<open>configuration_manager.experiments[experiment.type]\<close> raises \<open>KeyError\<close> for a
  running experiment whose type is not loaded.
\<close>

fun experiments_with_lab :: "string \<Rightarrow> (string, experiment_config) dict \<Rightarrow> experiment_entity list \<Rightarrow> error + experiment_entity list" where
  "experiments_with_lab lab_id cfg [] = Inr []"
| "experiments_with_lab lab_id cfg (e # es) =
     (case dict_get (experiment_type e) cfg of
        Inl err \<Rightarrow> Inl err
      | Inr c \<Rightarrow>
          (case experiments_with_lab lab_id cfg es of
             Inl err \<Rightarrow> Inl err
           | Inr r \<Rightarrow> Inr (if lab_id \<in> set (config_labs c) then e # r else r)))"

definition check_experiments_using_lab :: "string \<Rightarrow> world \<Rightarrow> error + experiment_entity list" where
  "check_experiments_using_lab lab_id w =
     (let running_experiments = get_experiments EXP_RUNNING w
      in experiments_with_lab lab_id (cfg_experiments w) running_experiments)"

definition owned_by_experiment :: "task \<Rightarrow> bool" where
  "owned_by_experiment t =
     (case task_experiment_id t of
        None \<Rightarrow> False
      | Some i \<Rightarrow> i \<noteq> [] \<and> i \<noteq> ''on_demand'')"

definition check_tasks_using_devices :: "string \<Rightarrow> string list option \<Rightarrow> world \<Rightarrow> task list" where
  "check_tasks_using_devices lab_id device_ids w =
     (let active_tasks = get_tasks TASK_RUNNING w @ get_tasks TASK_CREATED w
      in filter (\<lambda>t. \<not> owned_by_experiment t \<and>
                     (\<exists>d \<in> set (task_devices t).
                        device_lab d = lab_id \<and>
                        (case device_ids of None \<Rightarrow> True | Some ids \<Rightarrow> device_id d \<in> set ids)))
           active_tasks)"

text \<open>
  \<open>_check_lab_usage\<close>: what it raises, if anything.  The service's
  \<open>EosExperimentTypeInUseError\<close> is the error the specification calls
  \<open>ResourceInUse\<close>.
\<close>

definition lab_usage :: "string \<Rightarrow> world \<Rightarrow> error option" where
  "lab_usage lab_id w =
     (case check_experiments_using_lab lab_id w of
        Inl e \<Rightarrow> Some e
      | Inr using_experiments \<Rightarrow>
          if using_experiments \<noteq> [] then Some EosExperimentTypeInUseError
          else if check_tasks_using_devices lab_id None w \<noteq> [] then Some EosExperimentTypeInUseError
          else None)"

definition check_lab_usage :: "string \<Rightarrow> step" where
  "check_lab_usage lab_id st = (lab_usage lab_id (fst st), record_call (Check_lab_usage lab_id) st)"

subsection \<open>Loading, unloading and reloading labs\<close>

text \<open>
  A Python \<open>set\<close> of lab ids is a list here: the order in which the set is iterated.
\<close>

definition load_labs :: "collaborators \<Rightarrow> string list \<Rightarrow> step" where
  "load_labs C labs =
     with_loading_lock
       (in_sequence
          [collaborator_call (Cm_load_labs labs) (cm_load_labs C labs),
           collaborator_call (Update_devices_loaded labs) (update_devices_loaded C labs),
           collaborator_call (Update_containers_loaded labs) (update_containers_loaded C labs)])"

definition unload_labs :: "collaborators \<Rightarrow> string list \<Rightarrow> step" where
  "unload_labs C labs =
     in_sequence
       [in_sequence (map check_lab_usage labs),
        with_loading_lock
          (in_sequence
             [collaborator_call (Cm_unload_labs labs) (cm_unload_labs C labs),
              collaborator_call (Update_devices_unloaded labs) (update_devices_unloaded C labs),
              collaborator_call (Update_containers_unloaded labs) (update_containers_unloaded C labs)])]"

text \<open>
  \<open>_get_experiments_for_labs\<close>: the loaded experiment types that have one of the labs
  among their configured labs.
\<close>

definition get_experiments_for_labs :: "string list \<Rightarrow> world \<Rightarrow> string list" where
  "get_experiments_for_labs lab_types w =
     map fst (filter (\<lambda>(experiment_type, experiment_config).
                        \<exists>lab_type \<in> set lab_types. lab_type \<in> set (config_labs experiment_config))
                (cfg_experiments w))"

text \<open>\<open>load_experiments\<close> returns at once for an empty set of types.\<close>

definition load_experiments :: "collaborators \<Rightarrow> string list \<Rightarrow> step" where
  "load_experiments C experiment_types st =
     (if experiment_types = [] then (None, st)
      else collaborator_call (Cm_load_experiments experiment_types)
             (cm_load_experiments C experiment_types) st)"

text \<open>
  One round of the first loop of \<open>reload_labs\<close>: the lab's configuration is read, and
  the plugin of each of its device types is reloaded once; the first failure is raised.
\<close>

definition reload_lab_plugins :: "collaborators \<Rightarrow> string \<Rightarrow> step" where
  "reload_lab_plugins C lab_type st =
     (case read_lab_config C lab_type (fst st) of
        Inl e \<Rightarrow> (Some e, record_call (Read_lab_config lab_type) st)
      | Inr device_types \<Rightarrow>
          in_sequence
            (map (\<lambda>device_type. collaborator_call (Reload_plugin device_type) (reload_plugin C device_type))
               (remdups device_types))
            (record_call (Read_lab_config lab_type) st))"

text \<open>
  The first loop of \<open>reload_labs\<close>, before the lock is taken: for every lab, in turn,
  its configuration is read and the plugin of each of its device types is reloaded.
\<close>

definition reload_device_plugins :: "collaborators \<Rightarrow> string list \<Rightarrow> step" where
  "reload_device_plugins C lab_types = in_sequence (map (reload_lab_plugins C) lab_types)"

definition reload_labs :: "collaborators \<Rightarrow> string list \<Rightarrow> step" where
  "reload_labs C lab_types =
     in_sequence
       [reload_device_plugins C lab_types,
        with_loading_lock
          (\<lambda>st.
             let experiments_to_reload = get_experiments_for_labs lab_types (fst st)
             in in_sequence
                  [in_sequence (map check_lab_usage lab_types),
                   collaborator_call (Cm_unload_labs lab_types) (cm_unload_labs C lab_types),
                   collaborator_call (Update_devices_unloaded lab_types) (update_devices_unloaded C lab_types),
                   collaborator_call (Update_containers_unloaded lab_types) (update_containers_unloaded C lab_types),
                   collaborator_call (Cm_load_labs lab_types) (cm_load_labs C lab_types),
                   collaborator_call (Update_devices_loaded lab_types) (update_devices_loaded C lab_types),
                   collaborator_call (Update_containers_loaded lab_types) (update_containers_loaded C lab_types),
                   load_experiments C experiments_to_reload] st)]"

text \<open>
  Whether every usage check in a record of calls is made while the loading lock is held;
  \<open>depth\<close> counts the acquisitions of the reentrant lock that are not yet released.
\<close>

fun checks_under_lock :: "nat \<Rightarrow> call list \<Rightarrow> bool" where
  "checks_under_lock depth [] = True"
| "checks_under_lock depth (Lock_acquire # cs) = checks_under_lock (depth + 1) cs"
| "checks_under_lock depth (Lock_release # cs) = checks_under_lock (depth - 1) cs"
| "checks_under_lock depth (Check_lab_usage lab # cs) = (0 < depth \<and> checks_under_lock depth cs)"
| "checks_under_lock depth (c # cs) = checks_under_lock depth cs"


section \<open>Notions used in the properties\<close>

subsection \<open>The experiment service\<close>

text \<open>The ids on which \<open>progress_experiment\<close> was called, in the order of the calls.\<close>
fun progressed_ids :: "event list \<Rightarrow> string list" where
  "progressed_ids [] = []"
| "progressed_ids (Progressed i # es) = i # progressed_ids es"
| "progressed_ids (e # es) = progressed_ids es"

definition progress_result :: "string \<times> experiment_executor \<Rightarrow> error + bool" where
  "progress_result x = progress_behaviour (snd x) (progress_calls (snd x))"

definition raises_only_execution_error :: "string \<times> experiment_executor \<Rightarrow> bool" where
  "raises_only_execution_error x =
     (case progress_result x of
        Inr completed \<Rightarrow> True
      | Inl e \<Rightarrow> e = EosExperimentExecutionError)"

definition completed_of :: "(string \<times> experiment_executor) list \<Rightarrow> string list" where
  "completed_of xs = map fst (filter (\<lambda>x. progress_result x = Inr True) xs)"

definition failed_of :: "(string \<times> experiment_executor) list \<Rightarrow> string list" where
  "failed_of xs = map fst (filter (\<lambda>x. progress_result x = Inl EosExperimentExecutionError) xs)"

definition progressed_state :: "string \<Rightarrow> experiment_executor \<Rightarrow> experiment_service \<Rightarrow> experiment_service" where
  "progressed_state i ex s =
     store_executor i (ex\<lparr>progress_calls := progress_calls ex + 1\<rparr>) (log_event (Progressed i) s)"

text \<open>
  The ids on which the cancel of an executor was called, and the ids removed from the
  registry, in the order of the events.
\<close>

fun cancel_called_ids :: "event list \<Rightarrow> string list" where
  "cancel_called_ids [] = []"
| "cancel_called_ids (Cancel_called i # es) = i # cancel_called_ids es"
| "cancel_called_ids (e # es) = cancel_called_ids es"

fun removed_ids :: "event list \<Rightarrow> string list" where
  "removed_ids [] = []"
| "removed_ids (Removed i # es) = i # removed_ids es"
| "removed_ids (e # es) = removed_ids es"

text \<open>
  What the \<open>cancel\<close> coroutine of \<open>process_experiment_cancellations\<close> does for an id
  in a state: the registry lookup raises \<open>KeyError\<close> for an id that is not registered,
  otherwise the executor's next cancel decides.
\<close>

definition cancel_outcome :: "experiment_service \<Rightarrow> string \<Rightarrow> error option" where
  "cancel_outcome s i =
     (case map_of (submitted_experiments s) i of
        None \<Rightarrow> Some (KeyError i)
      | Some ex \<Rightarrow> cancel_behaviour ex (cancel_calls ex))"



text \<open>The state after a call of cancel on the executor \<open>ex\<close> registered under \<open>i\<close>.\<close>

definition cancelled_state :: "string \<Rightarrow> experiment_executor \<Rightarrow> experiment_service \<Rightarrow> experiment_service" where
  "cancelled_state i ex s =
     store_executor i (ex\<lparr>cancel_calls := cancel_calls ex + 1\<rparr>) (log_event (Cancel_called i) s)"


subsection \<open>The loading service\<close>




text \<open>
  A step that records calls of one kind only, and a step that has recorded exactly the
  given calls whenever it ends without an exception.
\<close>

definition only_calls :: "(call \<Rightarrow> bool) \<Rightarrow> step \<Rightarrow> bool" where
  "only_calls P p = (\<forall>st. \<exists>cs. snd (snd (p st)) = snd st @ cs \<and> list_all P cs)"

definition records_on_success :: "step \<Rightarrow> call list \<Rightarrow> bool" where
  "records_on_success p cs = (\<forall>st. fst (p st) = None \<longrightarrow> snd (snd (p st)) = snd st @ cs)"

text \<open>The calls that read a lab's configuration and reload a device plugin.\<close>

fun is_plugin_call :: "call \<Rightarrow> bool" where
  "is_plugin_call (Read_lab_config lab) = True"
| "is_plugin_call (Reload_plugin device_type) = True"
| "is_plugin_call c = False"

text \<open>
  The collaborator calls of a \<open>reload_labs\<close> that succeeds, after the usage checks:
  unload and load of the labs, then the load of the experiments to reload, which
  \<open>load_experiments\<close> skips when there are none.
\<close>

definition reload_calls :: "string list \<Rightarrow> string list \<Rightarrow> call list" where
  "reload_calls lab_types experiments_to_reload =
     [Cm_unload_labs lab_types, Update_devices_unloaded lab_types,
      Update_containers_unloaded lab_types,
      Cm_load_labs lab_types, Update_devices_loaded lab_types,
      Update_containers_loaded lab_types]
     @ (if experiments_to_reload = [] then [] else [Cm_load_experiments experiments_to_reload])"

text \<open>The statements of \<open>reload_labs\<close> under the lock, for given experiments to reload.\<close>

definition reload_body :: "collaborators \<Rightarrow> string list \<Rightarrow> string list \<Rightarrow> step list" where
  "reload_body C lab_types experiments_to_reload =
     [in_sequence (map check_lab_usage lab_types),
      collaborator_call (Cm_unload_labs lab_types) (cm_unload_labs C lab_types),
      collaborator_call (Update_devices_unloaded lab_types) (update_devices_unloaded C lab_types),
      collaborator_call (Update_containers_unloaded lab_types) (update_containers_unloaded C lab_types),
      collaborator_call (Cm_load_labs lab_types) (cm_load_labs C lab_types),
      collaborator_call (Update_devices_loaded lab_types) (update_devices_loaded C lab_types),
      collaborator_call (Update_containers_loaded lab_types) (update_containers_loaded C lab_types),
      load_experiments C experiments_to_reload]"


section \<open>Example states\<close>

text \<open>
  An executor that started, that is not complete after any call of progress and whose
  cancellation succeeds.
\<close>

definition running_executor :: "string \<Rightarrow> int \<Rightarrow> experiment_executor" where
  "running_executor i p =
     \<lparr>executor_definition = \<lparr>def_id = i, def_type = ''exp'', def_priority = p\<rparr>,
      start_behaviour = None,
      progress_behaviour = (\<lambda>n. Inr False),
      cancel_behaviour = (\<lambda>n. None),
      start_calls = 1, progress_calls = 0, cancel_calls = 0\<rparr>"

text \<open>Three registered experiments of priorities 5, 1 and 5.\<close>

definition three_priorities :: experiment_service where
  "three_priorities =
     \<lparr>configuration_experiments = [''exp''],
      submitted_experiments =
        [(''a'', running_executor ''a'' 5), (''b'', running_executor ''b'' 1),
         (''c'', running_executor ''c'' 5)],
      experiment_cancellation_queue = [],
      events = []\<rparr>"

text \<open>
  Three registered experiments: \<open>a\<close> completes at its next progress, \<open>b\<close> raises
  \<open>EosExperimentExecutionError\<close> at its next progress, \<open>c\<close> goes on.
\<close>

definition one_failing :: experiment_service where
  "one_failing =
     \<lparr>configuration_experiments = [''exp''],
      submitted_experiments =
        [(''a'', (running_executor ''a'' 10)\<lparr>progress_behaviour := (\<lambda>n. Inr True)\<rparr>),
         (''b'', (running_executor ''b'' 5)
                   \<lparr>progress_behaviour := (\<lambda>n. Inl EosExperimentExecutionError)\<rparr>),
         (''c'', running_executor ''c'' 1)],
      experiment_cancellation_queue = [],
      events = []\<rparr>"

text \<open>
  A factory: the executor of a definition, whose start does what \<open>start\<close> says.
\<close>

definition new_executor :: "error option \<Rightarrow> experiment_definition \<Rightarrow> experiment_executor" where
  "new_executor start d =
     \<lparr>executor_definition = d,
      start_behaviour = start,
      progress_behaviour = (\<lambda>n. Inr False),
      cancel_behaviour = (\<lambda>n. None),
      start_calls = 0, progress_calls = 0, cancel_calls = 0\<rparr>"

text \<open>One registered experiment, \<open>e1\<close>, and one loaded experiment type, \<open>exp\<close>.\<close>

definition one_registered :: experiment_service where
  "one_registered =
     \<lparr>configuration_experiments = [''exp''],
      submitted_experiments = [(''e1'', running_executor ''e1'' 1)],
      experiment_cancellation_queue = [],
      events = []\<rparr>"

text \<open>A definition with the id of the registered experiment and a type that is not loaded.\<close>

definition unknown_type_definition :: experiment_definition where
  "unknown_type_definition = \<lparr>def_id = ''e1'', def_type = ''missing'', def_priority = 1\<rparr>"

text \<open>A definition with a new id and the loaded type.\<close>

definition second_definition :: experiment_definition where
  "second_definition = \<lparr>def_id = ''e2'', def_type = ''exp'', def_priority = 3\<rparr>"

text \<open>
  Two queued cancellations: the cancel of \<open>a\<close> succeeds, the cancel of \<open>b\<close> raises
  \<open>EosExperimentExecutionError\<close>.
\<close>

definition mixed_cancellations :: experiment_service where
  "mixed_cancellations =
     \<lparr>configuration_experiments = [''exp''],
      submitted_experiments =
        [(''a'', running_executor ''a'' 1),
         (''b'', (running_executor ''b'' 1)
                   \<lparr>cancel_behaviour := (\<lambda>n. Some EosExperimentExecutionError)\<rparr>),
         (''c'', running_executor ''c'' 1)],
      experiment_cancellation_queue = [''a'', ''b''],
      events = []\<rparr>"

text \<open>Two queued cancellations that both succeed.\<close>

definition two_cancellations :: experiment_service where
  "two_cancellations =
     \<lparr>configuration_experiments = [''exp''],
      submitted_experiments =
        [(''a'', running_executor ''a'' 1), (''b'', running_executor ''b'' 1),
         (''c'', running_executor ''c'' 1)],
      experiment_cancellation_queue = [''a'', ''b''],
      events = []\<rparr>"

text \<open>The id \<open>a\<close> queued twice.\<close>

definition duplicate_cancellation :: experiment_service where
  "duplicate_cancellation =
     \<lparr>configuration_experiments = [''exp''],
      submitted_experiments =
        [(''a'', running_executor ''a'' 1), (''b'', running_executor ''b'' 1)],
      experiment_cancellation_queue = [''a'', ''a''],
      events = []\<rparr>"

text \<open>
  Experiment configurations on disk: \<open>exp\<close> runs in \<open>lab1\<close>, \<open>other\<close> in \<open>lab2\<close>.
\<close>

definition experiment_packages :: "(string, experiment_config) dict" where
  "experiment_packages =
     [(''exp'', \<lparr>config_labs = [''lab1'']\<rparr>), (''other'', \<lparr>config_labs = [''lab2'']\<rparr>)]"

text \<open>
  Collaborators for the examples.  The plugin of the device type \<open>broken\<close> does not
  reload.  Unloading labs also unloads the experiments that use them; loading experiments
  reads their configurations from the packages.
\<close>

definition lab_collaborators :: collaborators where
  "lab_collaborators =
     \<lparr>read_lab_config =
        (\<lambda>lab w. if lab = ''lab1'' then Inr [''pump'', ''heater'', ''pump'']
                  else if lab = ''lab2'' then Inr [''valve'', ''broken'']
                  else Inl (OtherError ''no such lab'')),
      reload_plugin =
        (\<lambda>t w. if t = ''broken'' then Inl (OtherError ''plugin does not load'')
                else Inr (w\<lparr>device_plugin_reloads := device_plugin_reloads w @ [t]\<rparr>)),
      cm_load_labs = (\<lambda>labs w. Inr (w\<lparr>cfg_labs := cfg_labs w @ labs\<rparr>)),
      cm_unload_labs =
        (\<lambda>labs w. Inr (w\<lparr>cfg_labs := filter (\<lambda>l. l \<notin> set labs) (cfg_labs w),
                          cfg_experiments :=
                            filter (\<lambda>x. \<not> (\<exists>l \<in> set labs. l \<in> set (config_labs (snd x))))
                              (cfg_experiments w)\<rparr>)),
      cm_load_experiments =
        (\<lambda>ts w. Inr (w\<lparr>cfg_experiments :=
                           cfg_experiments w @ filter (\<lambda>x. fst x \<in> set ts) experiment_packages\<rparr>)),
      update_devices_loaded =
        (\<lambda>labs w. Inr (w\<lparr>device_manager_labs := device_manager_labs w @ labs\<rparr>)),
      update_devices_unloaded =
        (\<lambda>labs w. Inr (w\<lparr>device_manager_labs := filter (\<lambda>l. l \<notin> set labs) (device_manager_labs w)\<rparr>)),
      update_containers_loaded =
        (\<lambda>labs w. Inr (w\<lparr>container_manager_labs := container_manager_labs w @ labs\<rparr>)),
      update_containers_unloaded =
        (\<lambda>labs w. Inr (w\<lparr>container_manager_labs :=
                            filter (\<lambda>l. l \<notin> set labs) (container_manager_labs w)\<rparr>))\<rparr>"

text \<open>A world with both labs and both experiment types loaded and nothing running.\<close>

definition idle_world :: world where
  "idle_world =
     \<lparr>cfg_experiments = experiment_packages,
      cfg_labs = [''lab1'', ''lab2''],
      db_experiments =
        [\<lparr>experiment_id = ''e0'', experiment_type = ''exp'', experiment_status = EXP_COMPLETED\<rparr>],
      db_tasks = [],
      device_manager_labs = [''lab1'', ''lab2''],
      container_manager_labs = [''lab1'', ''lab2''],
      device_plugin_reloads = []\<rparr>"



section \<open>Properties of the experiment service\<close>

subsection \<open>Sorting and the progress loop\<close>


lemma progressed_ids_append: "progressed_ids (xs @ ys) = progressed_ids xs @ progressed_ids ys"
  by (induction xs rule: progressed_ids.induct) simp_all

lemma progressed_ids_Progressed [simp]: "progressed_ids (map Progressed xs) = xs"
  by (induction xs) simp_all

lemma progressed_ids_Removed [simp]: "progressed_ids (map Removed xs) = []"
  by (induction xs) simp_all

lemma priority_lookup:
  assumes "distinct (map fst d)" and "x \<in> set d"
  shows "the (map_of (map (\<lambda>(exp_id, executor). (exp_id, def_priority (executor_definition executor))) d) (fst x))
         = executor_priority x"
proof -
  have "map_of (map (\<lambda>(i, e). (i, def_priority (executor_definition e))) d) (fst x)
        = map_option (\<lambda>e. def_priority (executor_definition e)) (map_of d (fst x))"
    by (induction d) auto
  moreover have "map_of d (fst x) = Some (snd x)"
    using assms by (cases x) simp
  ultimately show ?thesis by (simp add: executor_priority_def)
qed

lemma py_sorted_set: "set (py_sorted key r xs) = set xs"
  by (simp add: py_sorted_def)

lemma distinct_map_insort_key:
  "distinct (map g (insort_key f x xs)) = (g x \<notin> g ` set xs \<and> distinct (map g xs))"
  by (induction xs) (auto simp: set_insort_key)

lemma distinct_map_sort_key: "distinct (map g (sort_key f xs)) = distinct (map g xs)"
  by (induction xs) (simp_all add: distinct_map_insort_key)

lemma py_sorted_distinct_map: "distinct (map g (py_sorted key r xs)) = distinct (map g xs)"
  by (simp add: py_sorted_def distinct_map_sort_key rev_map[symmetric])

lemma py_sorted_reverse_sorted:
  "sorted_wrt (\<lambda>a b. key b \<le> key a) (py_sorted key True xs)"
proof -
  have "sorted (map key (sort_key key (rev xs)))" by (rule sorted_sort_key)
  then have "sorted_wrt (\<lambda>a b. key a \<le> key b) (sort_key key (rev xs))"
    by (simp add: sorted_map)
  then show ?thesis by (simp add: py_sorted_def sorted_wrt_rev)
qed

lemma py_sorted_reverse_stable:
  "filter (\<lambda>y. key y = k) (py_sorted key True xs) = filter (\<lambda>y. key y = k) xs"
proof -
  have "filter (\<lambda>y. key y = k) (rev (sort_key key (rev xs)))
        = rev (filter (\<lambda>y. key y = k) (sort_key key (rev xs)))"
    by (simp add: rev_filter)
  also have "\<dots> = rev (filter (\<lambda>y. key y = k) (rev xs))"
    by (simp only: sort_key_stable)
  also have "\<dots> = filter (\<lambda>y. key y = k) xs"
    by (simp add: rev_filter)
  finally show ?thesis by (simp add: py_sorted_def)
qed

lemma get_sorted_set: "set (get_sorted_experiments s) = set (submitted_experiments s)"
  by (simp add: get_sorted_experiments_def py_sorted_set)

lemma get_sorted_distinct:
  "distinct (map fst (get_sorted_experiments s)) = distinct (dict_keys (submitted_experiments s))"
  by (simp add: get_sorted_experiments_def py_sorted_distinct_map dict_keys_def)

lemma get_sorted_descending:
  assumes "distinct (dict_keys (submitted_experiments s))"
  shows "sorted_wrt (\<lambda>a b. executor_priority b \<le> executor_priority a) (get_sorted_experiments s)"
proof -
  let ?k = "\<lambda>x. the (map_of (map (\<lambda>(exp_id, executor). (exp_id, def_priority (executor_definition executor)))
                 (submitted_experiments s)) (fst x))"
  have srt: "sorted_wrt (\<lambda>a b. ?k b \<le> ?k a) (get_sorted_experiments s)"
    unfolding get_sorted_experiments_def Let_def by (rule py_sorted_reverse_sorted)
  have eq: "\<And>x. x \<in> set (get_sorted_experiments s) \<Longrightarrow> ?k x = executor_priority x"
    using assms by (simp add: get_sorted_set priority_lookup dict_keys_def)
  show ?thesis
    by (rule sorted_wrt_mono_rel[OF _ srt]) (simp add: eq)
qed

lemma get_sorted_stable:
  assumes "distinct (dict_keys (submitted_experiments s))"
  shows "filter (\<lambda>x. executor_priority x = p) (get_sorted_experiments s)
         = filter (\<lambda>x. executor_priority x = p) (submitted_experiments s)"
proof -
  let ?k = "\<lambda>x. the (map_of (map (\<lambda>(exp_id, executor). (exp_id, def_priority (executor_definition executor)))
                 (submitted_experiments s)) (fst x))"
  have eq: "\<And>x. x \<in> set (submitted_experiments s) \<Longrightarrow> ?k x = executor_priority x"
    using assms by (simp add: priority_lookup dict_keys_def)
  have "filter (\<lambda>x. executor_priority x = p) (get_sorted_experiments s)
        = filter (\<lambda>x. ?k x = p) (get_sorted_experiments s)"
    by (rule filter_cong) (simp_all add: get_sorted_set eq)
  also have "\<dots> = filter (\<lambda>x. ?k x = p) (submitted_experiments s)"
    unfolding get_sorted_experiments_def Let_def by (rule py_sorted_reverse_stable)
  also have "\<dots> = filter (\<lambda>x. executor_priority x = p) (submitted_experiments s)"
    by (rule filter_cong) (simp_all add: eq)
  finally show ?thesis .
qed

lemma events_store_executor [simp]: "events (store_executor i ex s) = events s"
  by (simp add: store_executor_def)

lemma events_log_event [simp]: "events (log_event e s) = events s @ [e]"
  by (simp add: log_event_def)

lemma keys_store_executor [simp]:
  "dict_keys (submitted_experiments (store_executor i ex s)) = dict_keys (submitted_experiments s)"
  by (auto simp: store_executor_def dict_keys_def)

lemma submitted_log_event [simp]: "submitted_experiments (log_event e s) = submitted_experiments s"
  by (simp add: log_event_def)

lemma progress_all_Cons:
  "progress_all ((i, ex) # rest) c f s =
     (case progress_behaviour ex (progress_calls ex) of
        Inr b \<Rightarrow> progress_all rest (if b then c @ [i] else c) f (progressed_state i ex s)
      | Inl e \<Rightarrow> if e = EosExperimentExecutionError
                 then progress_all rest c (f @ [i]) (progressed_state i ex s)
                 else (Some e, c, f, progressed_state i ex s))"
  by (simp add: progress_experiment_def progressed_state_def split: sum.splits)

declare progress_all.simps(2) [simp del]

lemma events_progressed_state [simp]: "events (progressed_state i ex s) = events s @ [Progressed i]"
  by (simp add: progressed_state_def)

lemma keys_progressed_state [simp]:
  "dict_keys (submitted_experiments (progressed_state i ex s)) = dict_keys (submitted_experiments s)"
  by (simp add: progressed_state_def)

lemma progress_all_prefix:
  "\<exists>k. events (snd (snd (snd (progress_all xs c f s)))) = events s @ map Progressed (take k (map fst xs))"
proof (induction xs arbitrary: c f s)
  case Nil
  then show ?case by simp
next
  case (Cons x rest)
  obtain i ex where x: "x = (i, ex)" by (cases x)
  let ?s1 = "progressed_state i ex s"
  have step: "\<exists>k. events (snd (snd (snd (progress_all rest c1 f1 ?s1))))
                 = events s @ map Progressed (take k (map fst (x # rest)))" for c1 f1
  proof -
    from Cons.IH[of c1 f1 ?s1] obtain k where
      "events (snd (snd (snd (progress_all rest c1 f1 ?s1)))) = events ?s1 @ map Progressed (take k (map fst rest))"
      by blast
    then show ?thesis by (intro exI[of _ "Suc k"]) (simp add: x)
  qed
  show ?case
  proof (cases "progress_behaviour ex (progress_calls ex)")
    case (Inr b)
    then show ?thesis using step by (simp add: x progress_all_Cons)
  next
    case (Inl e)
    show ?thesis
    proof (cases "e = EosExperimentExecutionError")
      case True
      with Inl show ?thesis using step by (simp add: x progress_all_Cons)
    next
      case False
      with Inl have "events (snd (snd (snd (progress_all (x # rest) c f s))))
                     = events s @ map Progressed (take (Suc 0) (map fst (x # rest)))"
        by (simp add: x progress_all_Cons)
      then show ?thesis by blast
    qed
  qed
qed

lemma progress_all_result:
  assumes "\<forall>x \<in> set xs. raises_only_execution_error x"
  shows "\<exists>s'. progress_all xs c f s = (None, c @ completed_of xs, f @ failed_of xs, s')
            \<and> events s' = events s @ map Progressed (map fst xs)
            \<and> dict_keys (submitted_experiments s') = dict_keys (submitted_experiments s)"
  using assms
proof (induction xs arbitrary: c f s)
  case Nil
  then show ?case by (simp add: completed_of_def failed_of_def)
next
  case (Cons x rest)
  obtain i ex where x: "x = (i, ex)" by (cases x)
  let ?s1 = "progressed_state i ex s"
  from Cons.prems have rest: "\<forall>x \<in> set rest. raises_only_execution_error x" by simp
  from Cons.prems have hd: "raises_only_execution_error (i, ex)" by (simp add: x)
  show ?case
  proof (cases "progress_behaviour ex (progress_calls ex)")
    case (Inr b)
    from Cons.IH[OF rest, of "if b then c @ [i] else c" f ?s1] Inr
    show ?thesis
      by (auto simp: x progress_all_Cons completed_of_def failed_of_def progress_result_def)
  next
    case (Inl e)
    with hd have e: "e = EosExperimentExecutionError"
      by (simp add: raises_only_execution_error_def progress_result_def)
    from Cons.IH[OF rest, of c "f @ [i]" ?s1] Inl e
    show ?thesis
      by (auto simp: x progress_all_Cons completed_of_def failed_of_def progress_result_def)
  qed
qed

lemma dict_pop_filter: "dict_pop k d = filter (\<lambda>x. fst x \<noteq> k) d"
  by (simp add: dict_pop_def case_prod_unfold)

lemma delete_all_ok:
  assumes "distinct ids" and "set ids \<subseteq> set (dict_keys (submitted_experiments s))"
  shows "delete_all ids s =
           (None, s\<lparr>submitted_experiments := filter (\<lambda>x. fst x \<notin> set ids) (submitted_experiments s),
                     events := events s @ map Removed ids\<rparr>)"
  using assms
proof (induction ids arbitrary: s)
  case Nil
  then show ?case by simp
next
  case (Cons i ids)
  let ?d = "dict_pop i (submitted_experiments s)"
  let ?s1 = "log_event (Removed i) (s\<lparr>submitted_experiments := ?d\<rparr>)"
  from Cons.prems have del: "dict_del i (submitted_experiments s) = Inr ?d"
    by (simp add: dict_del_def dict_contains_def)
  have keys: "set (dict_keys (submitted_experiments ?s1))
              = set (dict_keys (submitted_experiments s)) - {i}"
    by (force simp: dict_keys_def dict_pop_filter)
  from Cons.prems have "distinct ids" "set ids \<subseteq> set (dict_keys (submitted_experiments ?s1))"
    unfolding keys by auto
  from Cons.IH[OF this] show ?case
    by (simp add: del log_event_def dict_pop_filter conj_commute)
qed

lemma delete_all_progressed:
  "progressed_ids (events (snd (delete_all ids s))) = progressed_ids (events s)"
  by (induction ids s rule: delete_all.induct)
     (auto simp: progressed_ids_append split: sum.splits)

lemma process_experiments_progressed_prefix:
  "\<exists>k. progressed_ids (events (snd (process_experiments s)))
        = progressed_ids (events s) @ take k (map fst (get_sorted_experiments s))"
proof (cases "submitted_experiments s = []")
  case True
  then show ?thesis by (simp add: process_experiments_def)
next
  case False
  obtain r c f s1 where pa: "progress_all (get_sorted_experiments s) [] [] s = (r, c, f, s1)"
    by (cases "progress_all (get_sorted_experiments s) [] [] s") auto
  from progress_all_prefix[of "get_sorted_experiments s" "[]" "[]" s] pa
  obtain k where k: "events s1 = events s @ map Progressed (take k (map fst (get_sorted_experiments s)))"
    by auto
  have "progressed_ids (events (snd (process_experiments s))) = progressed_ids (events s1)"
    using False pa
    by (auto simp: process_experiments_def delete_all_progressed split: option.splits prod.splits)
       (metis delete_all_progressed snd_conv)+
  with k show ?thesis by (auto simp: progressed_ids_append)
qed

lemma map_fst_filter_disjoint:
  assumes "distinct (map fst xs)" and "\<And>x. x \<in> set xs \<Longrightarrow> \<not> (P x \<and> Q x)"
  shows "set (map fst (filter P xs)) \<inter> set (map fst (filter Q xs)) = {}"
proof (rule ccontr)
  assume "set (map fst (filter P xs)) \<inter> set (map fst (filter Q xs)) \<noteq> {}"
  then obtain x y where "x \<in> set xs" "P x" "y \<in> set xs" "Q y" "fst x = fst y" by auto
  with assms(1) have "x = y" by (meson distinct_map inj_onD)
  with assms(2) \<open>x \<in> set xs\<close> \<open>P x\<close> \<open>Q y\<close> show False by blast
qed

lemma process_experiments_result:
  assumes dist: "distinct (dict_keys (submitted_experiments s))"
      and ok: "\<forall>x \<in> set (submitted_experiments s). raises_only_execution_error x"
  shows "\<exists>s'. process_experiments s = (None, s')
           \<and> events s' = events s @ map Progressed (map fst (get_sorted_experiments s))
                 @ map Removed (completed_of (get_sorted_experiments s))
                 @ map Removed (failed_of (get_sorted_experiments s))
           \<and> dict_keys (submitted_experiments s')
               = filter (\<lambda>i. i \<notin> set (completed_of (get_sorted_experiments s))
                                 \<union> set (failed_of (get_sorted_experiments s)))
                   (dict_keys (submitted_experiments s))"
proof (cases "submitted_experiments s = []")
  case True
  then show ?thesis
    by (simp add: process_experiments_def get_sorted_experiments_def py_sorted_def
          completed_of_def failed_of_def dict_keys_def)
next
  case False
  let ?xs = "get_sorted_experiments s"
  let ?c = "completed_of ?xs" and ?f = "failed_of ?xs"
  have dxs: "distinct (map fst ?xs)" using dist by (simp add: get_sorted_distinct)
  from ok have "\<forall>x \<in> set ?xs. raises_only_execution_error x" by (simp add: get_sorted_set)
  from progress_all_result[OF this, of "[]" "[]" s]
  obtain s1 where pa: "progress_all ?xs [] [] s = (None, ?c, ?f, s1)"
    and ev1: "events s1 = events s @ map Progressed (map fst ?xs)"
    and k1: "dict_keys (submitted_experiments s1) = dict_keys (submitted_experiments s)"
    by auto
  have keyset: "set (dict_keys (submitted_experiments s)) = set (map fst ?xs)"
    by (simp add: dict_keys_def get_sorted_set)
  have dc: "distinct ?c" and df: "distinct ?f"
    using dxs by (simp_all add: completed_of_def failed_of_def distinct_map_filter)
  have subc: "set ?c \<subseteq> set (dict_keys (submitted_experiments s1))"
    and subf: "set ?f \<subseteq> set (dict_keys (submitted_experiments s1))"
    unfolding k1 keyset by (auto simp: completed_of_def failed_of_def)
  have disj: "set ?c \<inter> set ?f = {}"
    unfolding completed_of_def failed_of_def
    by (rule map_fst_filter_disjoint[OF dxs]) auto
  let ?s2 = "s1\<lparr>submitted_experiments := filter (\<lambda>x. fst x \<notin> set ?c) (submitted_experiments s1),
                  events := events s1 @ map Removed ?c\<rparr>"
  have d1: "delete_all ?c s1 = (None, ?s2)" by (rule delete_all_ok[OF dc subc])
  have subf2: "set ?f \<subseteq> set (dict_keys (submitted_experiments ?s2))"
    using subf disj by (force simp: dict_keys_def)
  let ?s3 = "?s2\<lparr>submitted_experiments := filter (\<lambda>x. fst x \<notin> set ?f) (submitted_experiments ?s2),
                   events := events ?s2 @ map Removed ?f\<rparr>"
  have d2: "delete_all ?f ?s2 = (None, ?s3)" by (rule delete_all_ok[OF df subf2])
  have res: "process_experiments s = (None, ?s3)"
    using False pa d1 d2 by (simp add: process_experiments_def)
  have "dict_keys (submitted_experiments ?s3)
        = filter (\<lambda>i. i \<notin> set ?c \<union> set ?f) (dict_keys (submitted_experiments s1))"
    by (simp add: dict_keys_def filter_map comp_def conj_commute)
  with res ev1 k1 show ?thesis by simp
qed

text \<open>
  Claim C2.  A pass of \<open>process_experiments\<close> works on a snapshot of the registry
  that is sorted by priority, highest first, entries of equal priority staying in their
  order of insertion: the snapshot is in descending order of priority, and for every
  priority its entries are those of the registry in the registry's order.  The
  executors are progressed one after the other in the order of the snapshot: the ids
  progressed in the pass are an initial part of the snapshot's ids, and all of them when
  no executor raises anything but \<open>EosExperimentExecutionError\<close>.
\<close>

theorem process_experiments_priority_order:
  assumes "distinct (dict_keys (submitted_experiments s))"
  shows "sorted_wrt (\<lambda>a b. executor_priority b \<le> executor_priority a) (get_sorted_experiments s)
       \<and> (\<forall>p. filter (\<lambda>x. executor_priority x = p) (get_sorted_experiments s)
                = filter (\<lambda>x. executor_priority x = p) (submitted_experiments s))
       \<and> (\<exists>k. progressed_ids (events (snd (process_experiments s)))
                = progressed_ids (events s) @ take k (map fst (get_sorted_experiments s)))
       \<and> ((\<forall>x \<in> set (submitted_experiments s). raises_only_execution_error x) \<longrightarrow>
             progressed_ids (events (snd (process_experiments s)))
               = progressed_ids (events s) @ map fst (get_sorted_experiments s))"
proof (intro conjI)
  show "sorted_wrt (\<lambda>a b. executor_priority b \<le> executor_priority a) (get_sorted_experiments s)"
    using assms by (rule get_sorted_descending)
  show "\<forall>p. filter (\<lambda>x. executor_priority x = p) (get_sorted_experiments s)
             = filter (\<lambda>x. executor_priority x = p) (submitted_experiments s)"
    using assms by (simp add: get_sorted_stable)
  show "\<exists>k. progressed_ids (events (snd (process_experiments s)))
             = progressed_ids (events s) @ take k (map fst (get_sorted_experiments s))"
    by (rule process_experiments_progressed_prefix)
  show "(\<forall>x \<in> set (submitted_experiments s). raises_only_execution_error x) \<longrightarrow>
           progressed_ids (events (snd (process_experiments s)))
             = progressed_ids (events s) @ map fst (get_sorted_experiments s)"
  proof
    assume "\<forall>x \<in> set (submitted_experiments s). raises_only_execution_error x"
    from process_experiments_result[OF assms this] show
      "progressed_ids (events (snd (process_experiments s)))
             = progressed_ids (events s) @ map fst (get_sorted_experiments s)"
      by (auto simp: progressed_ids_append simp flip: map_map)
  qed
qed

text \<open>
  The three experiments of priorities 5, 1 and 5: both experiments of priority 5 are
  progressed before the one of priority 1, in their order of insertion.
\<close>

theorem process_experiments_priority_order_witness:
  "distinct (dict_keys (submitted_experiments three_priorities))
   \<and> map executor_priority (submitted_experiments three_priorities) = [5, 1, 5]
   \<and> list_all raises_only_execution_error (submitted_experiments three_priorities)
   \<and> progressed_ids (events (snd (process_experiments three_priorities))) = [''a'', ''c'', ''b'']"
proof -
  have d: "distinct (dict_keys (submitted_experiments three_priorities))"
    by (simp add: three_priorities_def running_executor_def dict_keys_def)
  have p: "map executor_priority (submitted_experiments three_priorities) = [5, 1, 5]"
    by (simp add: three_priorities_def running_executor_def executor_priority_def)
  have r: "\<forall>x \<in> set (submitted_experiments three_priorities). raises_only_execution_error x"
    by (simp add: three_priorities_def running_executor_def raises_only_execution_error_def
          progress_result_def)
  have g: "map fst (get_sorted_experiments three_priorities) = [''a'', ''c'', ''b'']"
    by (simp add: three_priorities_def running_executor_def get_sorted_experiments_def
          py_sorted_def)
  have e: "progressed_ids (events three_priorities) = []"
    by (simp add: three_priorities_def)
  from process_experiments_priority_order[OF d] r
  have "progressed_ids (events (snd (process_experiments three_priorities)))
          = progressed_ids (events three_priorities) @ map fst (get_sorted_experiments three_priorities)"
    by blast
  with d p r g e show ?thesis by (simp add: list_all_iff)
qed


subsection \<open>Failures during a pass\<close>

text \<open>
  Claim C4.  In a pass of \<open>process_experiments\<close> in which executors raise nothing but
  \<open>EosExperimentExecutionError\<close>, the pass itself raises nothing and every experiment
  of the snapshot is progressed, also those that come after one that raised.  The ids
  whose progress returned true and the ids whose progress raised are collected during
  the loop; the removals from the registry all come after the last call of progress,
  and exactly the collected ids are removed.
\<close>

theorem process_experiments_failure_isolation:
  assumes "distinct (dict_keys (submitted_experiments s))"
      and "\<forall>x \<in> set (submitted_experiments s). raises_only_execution_error x"
  shows "fst (process_experiments s) = None
       \<and> events (snd (process_experiments s))
           = events s @ map Progressed (map fst (get_sorted_experiments s))
               @ map Removed (completed_of (get_sorted_experiments s))
               @ map Removed (failed_of (get_sorted_experiments s))
       \<and> dict_keys (submitted_experiments (snd (process_experiments s)))
           = filter (\<lambda>i. i \<notin> set (completed_of (get_sorted_experiments s))
                             \<union> set (failed_of (get_sorted_experiments s)))
               (dict_keys (submitted_experiments s))"
  using process_experiments_result[OF assms] by auto

text \<open>
  Experiment \<open>b\<close> raises in the middle of the pass: \<open>c\<close> is progressed after it, and
  \<open>a\<close> and \<open>b\<close> are removed after the pass.
\<close>

theorem process_experiments_failure_isolation_witness:
  "distinct (dict_keys (submitted_experiments one_failing))
   \<and> list_all raises_only_execution_error (submitted_experiments one_failing)
   \<and> failed_of (get_sorted_experiments one_failing) = [''b'']
   \<and> fst (process_experiments one_failing) = None
   \<and> events (snd (process_experiments one_failing))
       = [Progressed ''a'', Progressed ''b'', Progressed ''c'', Removed ''a'', Removed ''b'']
   \<and> dict_keys (submitted_experiments (snd (process_experiments one_failing))) = [''c'']"
proof -
  have d: "distinct (dict_keys (submitted_experiments one_failing))"
    by (simp add: one_failing_def dict_keys_def)
  have r: "\<forall>x \<in> set (submitted_experiments one_failing). raises_only_execution_error x"
    by (simp add: one_failing_def running_executor_def raises_only_execution_error_def
          progress_result_def)
  have g: "get_sorted_experiments one_failing = submitted_experiments one_failing"
    by (simp add: one_failing_def running_executor_def get_sorted_experiments_def
          py_sorted_def)
  have c: "completed_of (submitted_experiments one_failing) = [''a'']"
    by (simp add: one_failing_def running_executor_def completed_of_def progress_result_def)
  have f: "failed_of (submitted_experiments one_failing) = [''b'']"
    by (simp add: one_failing_def running_executor_def failed_of_def progress_result_def)
  have k: "dict_keys (submitted_experiments one_failing) = [''a'', ''b'', ''c'']"
    by (simp add: one_failing_def dict_keys_def)
  have e: "events one_failing = []" by (simp add: one_failing_def)
  have m: "map (Progressed \<circ> fst) (submitted_experiments one_failing)
             = [Progressed ''a'', Progressed ''b'', Progressed ''c'']"
    by (simp add: one_failing_def)
  from process_experiments_failure_isolation[OF d r] d r
  show ?thesis by (simp add: g c f k e m list_all_iff)
qed


subsection \<open>Submission\<close>

lemma submit_unknown_type:
  "def_type d \<notin> set (configuration_experiments s) \<Longrightarrow>
   submit_experiment create d s = (Some EosExperimentDoesNotExistError, s)"
  by (simp add: submit_experiment_def validate_experiment_type_def)

lemma submit_registered:
  "def_type d \<in> set (configuration_experiments s) \<Longrightarrow>
   dict_contains (def_id d) (submitted_experiments s) \<Longrightarrow>
   submit_experiment create d s = (None, s)"
  by (simp add: submit_experiment_def validate_experiment_type_def)

lemma dict_pop_absent: "\<not> dict_contains k d \<Longrightarrow> dict_pop k d = d"
  by (induction d) (auto simp: dict_pop_def dict_contains_def dict_keys_def)

lemma submit_new:
  assumes "def_type d \<in> set (configuration_experiments s)"
      and "\<not> dict_contains (def_id d) (submitted_experiments s)"
  shows "submit_experiment create d s =
           (case start_behaviour (create d) of
              None \<Rightarrow>
                (None, s\<lparr>submitted_experiments :=
                           submitted_experiments s
                             @ [(def_id d, (create d)\<lparr>start_calls := start_calls (create d) + 1\<rparr>)],
                         events := events s @ [Created (def_id d), Started (def_id d)]\<rparr>)
            | Some e \<Rightarrow>
                (Some e, s\<lparr>events := events s @ [Created (def_id d), Started (def_id d)]\<rparr>))"
  using assms
  by (simp add: submit_experiment_def validate_experiment_type_def start_experiment_def
        log_event_def dict_set_def dict_pop_absent Let_def split: option.splits)

text \<open>
  Claim C3, as amended.  A submit that fails leaves the registry as it was.  It fails
  with \<open>EosExperimentDoesNotExistError\<close> when the type is not loaded, and otherwise only
  for an id that is not registered, with the exception that the executor's start raised;
  both failures reach the caller.  After a failed submit the id is not registered if the
  type is loaded or if the id was not registered before the call.
\<close>

theorem submit_experiment_failure:
  "(fst (submit_experiment create d s) = Some e \<longrightarrow>
      submitted_experiments (snd (submit_experiment create d s)) = submitted_experiments s
      \<and> (def_type d \<notin> set (configuration_experiments s) \<and> e = EosExperimentDoesNotExistError
         \<or> def_type d \<in> set (configuration_experiments s)
           \<and> \<not> dict_contains (def_id d) (submitted_experiments s)
           \<and> start_behaviour (create d) = Some e)
      \<and> (def_type d \<in> set (configuration_experiments s) \<or> \<not> dict_contains (def_id d) (submitted_experiments s)
           \<longrightarrow> \<not> dict_contains (def_id d) (submitted_experiments (snd (submit_experiment create d s)))))
   \<and> (def_type d \<notin> set (configuration_experiments s) \<longrightarrow>
        fst (submit_experiment create d s) = Some EosExperimentDoesNotExistError)
   \<and> (def_type d \<in> set (configuration_experiments s)
        \<and> \<not> dict_contains (def_id d) (submitted_experiments s)
        \<and> start_behaviour (create d) = Some e \<longrightarrow>
        fst (submit_experiment create d s) = Some e)"
proof (cases "def_type d \<in> set (configuration_experiments s)")
  case False
  then show ?thesis by (simp add: submit_unknown_type)
next
  case True
  show ?thesis
  proof (cases "dict_contains (def_id d) (submitted_experiments s)")
    case True
    with \<open>def_type d \<in> set (configuration_experiments s)\<close> show ?thesis
      by (simp add: submit_registered)
  next
    case False
    with True show ?thesis
      by (auto simp: submit_new split: option.splits)
  qed
qed

text \<open>
  The claim as stated fails for a submit that names a registered id and a type that is
  not loaded: the validation of the type comes before the look at the registry, so the
  call fails and the id is in the registry afterwards.
\<close>

theorem submit_experiment_failure_counterexample:
  "fst (submit_experiment (new_executor None) unknown_type_definition one_registered)
     = Some EosExperimentDoesNotExistError
   \<and> dict_contains (def_id unknown_type_definition)
       (submitted_experiments
          (snd (submit_experiment (new_executor None) unknown_type_definition one_registered)))"
  by (simp add: submit_experiment_def validate_experiment_type_def one_registered_def
        unknown_type_definition_def dict_contains_def dict_keys_def)

text \<open>A submit of a new id whose executor fails to start.\<close>

theorem submit_experiment_failure_witness:
  "fst (submit_experiment (new_executor (Some EosExperimentExecutionError)) second_definition one_registered)
     = Some EosExperimentExecutionError
   \<and> submitted_experiments
       (snd (submit_experiment (new_executor (Some EosExperimentExecutionError)) second_definition one_registered))
     = submitted_experiments one_registered
   \<and> \<not> dict_contains (def_id second_definition)
       (submitted_experiments
          (snd (submit_experiment (new_executor (Some EosExperimentExecutionError)) second_definition one_registered)))"
proof -
  have t: "def_type second_definition \<in> set (configuration_experiments one_registered)"
    by (simp add: second_definition_def one_registered_def)
  have n: "\<not> dict_contains (def_id second_definition) (submitted_experiments one_registered)"
    by (simp add: second_definition_def one_registered_def dict_contains_def dict_keys_def)
  have b: "start_behaviour (new_executor (Some EosExperimentExecutionError) second_definition)
             = Some EosExperimentExecutionError"
    by (simp add: new_executor_def)
  from submit_experiment_failure[of "new_executor (Some EosExperimentExecutionError)"
         second_definition one_registered EosExperimentExecutionError] t n b
  show ?thesis by simp
qed






subsection \<open>Cancellations\<close>

lemma drain_queue_all: "drain_queue q acc = (acc @ q, [])"
  by (induction q arbitrary: acc) simp_all



lemma cancel_called_ids_map [simp]:
  "cancel_called_ids (map Cancel_called xs) = xs" "cancel_called_ids (map Removed xs) = []"
  by (induction xs) simp_all

lemma removed_ids_map [simp]:
  "removed_ids (map Removed xs) = xs" "removed_ids (map Cancel_called xs) = []"
  by (induction xs) simp_all

lemma queue_store_executor [simp]:
  "experiment_cancellation_queue (store_executor i ex s) = experiment_cancellation_queue s"
  by (simp add: store_executor_def)

lemma queue_log_event [simp]:
  "experiment_cancellation_queue (log_event e s) = experiment_cancellation_queue s"
  by (simp add: log_event_def)

lemma map_of_replace_other:
  "j \<noteq> i \<Longrightarrow> map_of (map (\<lambda>(k, v). if k = i then (k, ex) else (k, v)) d) j = map_of d j"
  by (induction d) auto

lemma map_of_store_executor:
  "j \<noteq> i \<Longrightarrow> map_of (submitted_experiments (store_executor i ex s)) j
                 = map_of (submitted_experiments s) j"
  by (simp add: store_executor_def map_of_replace_other)

lemma cancel_outcome_store_executor:
  "j \<noteq> i \<Longrightarrow> cancel_outcome (store_executor i ex (log_event e s)) j = cancel_outcome s j"
  by (simp add: cancel_outcome_def map_of_store_executor)

lemma dict_get_iff:
  "dict_get i d = (case map_of d i of None \<Rightarrow> Inl (KeyError i) | Some v \<Rightarrow> Inr v)"
  by (simp add: dict_get_def)

lemma map_of_None_contains: "(map_of d i = None) = (\<not> dict_contains i d)"
  by (simp add: map_of_eq_None_iff dict_contains_def dict_keys_def)

lemma gather_cancel_Cons:
  "gather_cancel (i # ids) s =
     (case map_of (submitted_experiments s) i of
        None \<Rightarrow> (Some (KeyError i), snd (gather_cancel ids s))
      | Some ex \<Rightarrow>
          (case cancel_behaviour ex (cancel_calls ex) of
             Some e \<Rightarrow> Some e
           | None \<Rightarrow> fst (gather_cancel ids (cancelled_state i ex s)),
           snd (gather_cancel ids (cancelled_state i ex s))))"
  by (simp add: dict_get_def executor_cancel_def cancelled_state_def case_prod_unfold
        split: option.splits)

declare gather_cancel.simps(2) [simp del]

lemma cancelled_state_simps [simp]:
  "events (cancelled_state i ex s) = events s @ [Cancel_called i]"
  "dict_keys (submitted_experiments (cancelled_state i ex s)) = dict_keys (submitted_experiments s)"
  "experiment_cancellation_queue (cancelled_state i ex s) = experiment_cancellation_queue s"
  by (simp_all add: cancelled_state_def)

lemma cancel_outcome_cancelled_state:
  "j \<noteq> i \<Longrightarrow> cancel_outcome (cancelled_state i ex s) j = cancel_outcome s j"
  by (simp add: cancelled_state_def cancel_outcome_store_executor)

lemma dict_contains_keys: "dict_contains i d = (i \<in> set (dict_keys d))"
  by (simp add: dict_contains_def)

lemma gather_cancel_frame:
  "dict_keys (submitted_experiments (snd (gather_cancel ids s))) = dict_keys (submitted_experiments s)
   \<and> experiment_cancellation_queue (snd (gather_cancel ids s)) = experiment_cancellation_queue s
   \<and> events (snd (gather_cancel ids s))
       = events s @ map Cancel_called
           (filter (\<lambda>i. dict_contains i (submitted_experiments s)) ids)"
proof (induction ids arbitrary: s)
  case Nil
  then show ?case by simp
next
  case (Cons i ids)
  show ?case
  proof (cases "map_of (submitted_experiments s) i")
    case None
    then have "\<not> dict_contains i (submitted_experiments s)" by (simp add: map_of_None_contains)
    with None Cons.IH[of s] show ?thesis by (simp add: gather_cancel_Cons)
  next
    case (Some ex)
    then have "dict_contains i (submitted_experiments s)"
      using map_of_None_contains[of "submitted_experiments s" i] by simp
    with Some Cons.IH[of "cancelled_state i ex s"] show ?thesis
      by (simp add: gather_cancel_Cons dict_contains_keys)
  qed
qed

lemma gather_cancel_outcome:
  assumes "distinct ids"
  shows "(fst (gather_cancel ids s) = None \<longrightarrow> (\<forall>i \<in> set ids. cancel_outcome s i = None))
       \<and> (fst (gather_cancel ids s) \<noteq> None \<longrightarrow>
            (\<exists>i \<in> set ids. cancel_outcome s i \<noteq> None \<and> fst (gather_cancel ids s) = cancel_outcome s i))"
  using assms
proof (induction ids arbitrary: s)
  case Nil
  then show ?case by simp
next
  case (Cons i ids)
  then have ni: "i \<notin> set ids" and d: "distinct ids" by simp_all
  show ?case
  proof (cases "map_of (submitted_experiments s) i")
    case None
    then show ?thesis by (simp add: gather_cancel_Cons cancel_outcome_def)
  next
    case (Some ex)
    have same: "cancel_outcome (cancelled_state i ex s) j = cancel_outcome s j" if "j \<in> set ids" for j
    proof -
      from that ni have "j \<noteq> i" by auto
      then show ?thesis by (rule cancel_outcome_cancelled_state)
    qed
    show ?thesis
    proof (cases "cancel_behaviour ex (cancel_calls ex)")
      case (Some e)
      with \<open>map_of (submitted_experiments s) i = Some ex\<close> show ?thesis
        by (simp add: gather_cancel_Cons cancel_outcome_def)
    next
      case None
      with \<open>map_of (submitted_experiments s) i = Some ex\<close>
      have h: "fst (gather_cancel (i # ids) s) = fst (gather_cancel ids (cancelled_state i ex s))"
        and o: "cancel_outcome s i = None"
        by (simp_all add: gather_cancel_Cons cancel_outcome_def)
      from Cons.IH[OF d, of "cancelled_state i ex s"] same show ?thesis
        unfolding h using o by auto
    qed
  qed
qed


lemma delete_all_error:
  "fst (delete_all ids s) = None \<longleftrightarrow> distinct ids \<and> set ids \<subseteq> set (dict_keys (submitted_experiments s))"
proof (induction ids arbitrary: s)
  case Nil
  then show ?case by simp
next
  case (Cons i ids)
  show ?case
  proof (cases "dict_contains i (submitted_experiments s)")
    case False
    then show ?thesis by (simp add: dict_del_def dict_contains_def)
  next
    case True
    let ?s1 = "log_event (Removed i) (s\<lparr>submitted_experiments := dict_pop i (submitted_experiments s)\<rparr>)"
    have keys: "set (dict_keys (submitted_experiments ?s1))
              = set (dict_keys (submitted_experiments s)) - {i}"
      by (force simp: dict_keys_def dict_pop_filter)
    from True have "fst (delete_all (i # ids) s) = fst (delete_all ids ?s1)"
      by (simp add: dict_del_def)
    with Cons.IH[of ?s1] True show ?thesis
      unfolding keys by (auto simp: dict_contains_def)
  qed
qed

lemma delete_all_KeyError:
  "fst (delete_all ids s) = Some e \<Longrightarrow> \<exists>k \<in> set ids. e = KeyError k"
proof (induction ids arbitrary: s)
  case Nil
  then show ?case by simp
next
  case (Cons i ids)
  then show ?case
    by (cases "dict_contains i (submitted_experiments s)") (auto simp: dict_del_def)
qed

lemma cancel_experiment_frame:
  "cancel_experiment i s = Some s1 \<Longrightarrow>
     submitted_experiments s1 = submitted_experiments s \<and> events s1 = events s"
  by (auto simp: cancel_experiment_def split: if_splits)



lemma drained_state_empty_queue:
  "experiment_cancellation_queue s = [] \<Longrightarrow> s\<lparr>experiment_cancellation_queue := []\<rparr> = s"
  by simp



lemma cancel_drained_result:
  assumes "distinct ids"
  shows "((\<forall>i \<in> set ids. cancel_outcome s i = None) \<longrightarrow>
            fst (cancel_drained ids s) = None
            \<and> dict_keys (submitted_experiments (snd (cancel_drained ids s)))
                = filter (\<lambda>i. i \<notin> set ids) (dict_keys (submitted_experiments s)))
       \<and> ((\<exists>i \<in> set ids. cancel_outcome s i \<noteq> None) \<longrightarrow>
            (\<exists>i \<in> set ids. cancel_outcome s i \<noteq> None \<and> fst (cancel_drained ids s) = cancel_outcome s i)
            \<and> dict_keys (submitted_experiments (snd (cancel_drained ids s)))
                = dict_keys (submitted_experiments s))"
proof (cases "ids = []")
  case True
  then show ?thesis by (simp add: cancel_drained_def)
next
  case False
  obtain r s1 where g: "gather_cancel ids s = (r, s1)" by (cases "gather_cancel ids s")
  from gather_cancel_frame[of ids s] g
  have k1: "dict_keys (submitted_experiments s1) = dict_keys (submitted_experiments s)" by simp
  from gather_cancel_outcome[OF assms, of s] g
  have o1: "r = None \<longrightarrow> (\<forall>i \<in> set ids. cancel_outcome s i = None)"
    and o2: "r \<noteq> None \<longrightarrow> (\<exists>i \<in> set ids. cancel_outcome s i \<noteq> None \<and> r = cancel_outcome s i)"
    by simp_all
  show ?thesis
  proof (cases r)
    case (Some e)
    with False g have c: "cancel_drained ids s = (r, s1)" by (simp add: cancel_drained_def)
    from Some o2 show ?thesis unfolding c by (auto simp: k1)
  next
    case None
    with o1 have all: "\<forall>i \<in> set ids. cancel_outcome s i = None" by simp
    have sub: "set ids \<subseteq> set (dict_keys (submitted_experiments s1))"
    proof
      fix i assume "i \<in> set ids"
      with all have "cancel_outcome s i = None" by simp
      then have "map_of (submitted_experiments s) i \<noteq> None"
        by (auto simp: cancel_outcome_def split: option.splits)
      then show "i \<in> set (dict_keys (submitted_experiments s1))"
        unfolding k1 by (simp add: map_of_None_contains dict_contains_def)
    qed
    from None False g have c: "cancel_drained ids s = delete_all ids s1"
      by (simp add: cancel_drained_def)
    have "dict_keys (filter (\<lambda>x. fst x \<notin> set ids) (submitted_experiments s1))
            = filter (\<lambda>i. i \<notin> set ids) (dict_keys (submitted_experiments s1))"
      by (simp add: dict_keys_def filter_map comp_def)
    with all show ?thesis
      unfolding c delete_all_ok[OF assms sub] by (simp add: k1)
  qed
qed

text \<open>
  Claim C6, as amended.  For a queue of pairwise distinct ids: when the cancellation of
  every drained id succeeds, the call returns without error and exactly the drained ids
  are removed from the registry; when the cancellation of some drained id fails, the
  call raises the exception of a failed cancellation and removes no id from the
  registry.
\<close>

theorem process_experiment_cancellations_all_or_nothing:
  assumes "distinct (experiment_cancellation_queue s)"
  shows "((\<forall>i \<in> set (experiment_cancellation_queue s). cancel_outcome s i = None) \<longrightarrow>
            fst (process_experiment_cancellations s) = None
            \<and> dict_keys (submitted_experiments (snd (process_experiment_cancellations s)))
                = filter (\<lambda>i. i \<notin> set (experiment_cancellation_queue s))
                    (dict_keys (submitted_experiments s)))
       \<and> ((\<exists>i \<in> set (experiment_cancellation_queue s). cancel_outcome s i \<noteq> None) \<longrightarrow>
            (\<exists>i \<in> set (experiment_cancellation_queue s).
                cancel_outcome s i \<noteq> None
                \<and> fst (process_experiment_cancellations s) = cancel_outcome s i)
            \<and> dict_keys (submitted_experiments (snd (process_experiment_cancellations s)))
                = dict_keys (submitted_experiments s))"
proof -
  let ?s0 = "s\<lparr>experiment_cancellation_queue := []\<rparr>"
  have p: "process_experiment_cancellations s = cancel_drained (experiment_cancellation_queue s) ?s0"
    by (simp add: process_experiment_cancellations_def drain_queue_all)
  have o: "cancel_outcome ?s0 = cancel_outcome s"
    by (rule ext) (simp add: cancel_outcome_def)
  from cancel_drained_result[OF assms, of ?s0] show ?thesis
    unfolding p o by simp
qed

text \<open>
  The claim as stated fails on a pass in which one cancellation succeeds and one fails:
  the cancel of \<open>a\<close> was called and succeeded, the call raises the exception of \<open>b\<close>,
  and \<open>a\<close> is still registered while the queue is empty.
\<close>

theorem process_experiment_cancellations_mixed_counterexample:
  "cancel_outcome mixed_cancellations ''a'' = None
   \<and> fst (process_experiment_cancellations mixed_cancellations) = Some EosExperimentExecutionError
   \<and> map (\<lambda>x. (fst x, cancel_calls (snd x)))
        (submitted_experiments (snd (process_experiment_cancellations mixed_cancellations)))
       = [(''a'', 1), (''b'', 1), (''c'', 0)]
   \<and> dict_contains ''a''
        (submitted_experiments (snd (process_experiment_cancellations mixed_cancellations)))
   \<and> experiment_cancellation_queue (snd (process_experiment_cancellations mixed_cancellations)) = []"
  by (simp add: mixed_cancellations_def running_executor_def cancel_outcome_def
        process_experiment_cancellations_def cancel_drained_def gather_cancel_Cons
        cancelled_state_def store_executor_def log_event_def dict_contains_def dict_keys_def)

text \<open>A pass in which both cancellations succeed, and the mixed pass.\<close>

theorem process_experiment_cancellations_all_or_nothing_witness:
  "distinct (experiment_cancellation_queue two_cancellations)
   \<and> list_all (\<lambda>i. cancel_outcome two_cancellations i = None)
        (experiment_cancellation_queue two_cancellations)
   \<and> fst (process_experiment_cancellations two_cancellations) = None
   \<and> dict_keys (submitted_experiments (snd (process_experiment_cancellations two_cancellations)))
       = [''c'']
   \<and> distinct (experiment_cancellation_queue mixed_cancellations)
   \<and> cancel_outcome mixed_cancellations ''b'' = Some EosExperimentExecutionError
   \<and> dict_keys (submitted_experiments (snd (process_experiment_cancellations mixed_cancellations)))
       = [''a'', ''b'', ''c'']"
proof -
  have d: "distinct (experiment_cancellation_queue two_cancellations)"
    and q: "experiment_cancellation_queue two_cancellations = [''a'', ''b'']"
    and k: "dict_keys (submitted_experiments two_cancellations) = [''a'', ''b'', ''c'']"
    by (simp_all add: two_cancellations_def dict_keys_def)
  have a: "\<forall>i \<in> set (experiment_cancellation_queue two_cancellations).
             cancel_outcome two_cancellations i = None"
    by (simp add: two_cancellations_def cancel_outcome_def running_executor_def)
  have d': "distinct (experiment_cancellation_queue mixed_cancellations)"
    and q': "experiment_cancellation_queue mixed_cancellations = [''a'', ''b'']"
    and k': "dict_keys (submitted_experiments mixed_cancellations) = [''a'', ''b'', ''c'']"
    by (simp_all add: mixed_cancellations_def dict_keys_def)
  have b: "cancel_outcome mixed_cancellations ''b'' = Some EosExperimentExecutionError"
    by (simp add: mixed_cancellations_def cancel_outcome_def running_executor_def)
  then have b': "\<exists>i \<in> set (experiment_cancellation_queue mixed_cancellations).
                   cancel_outcome mixed_cancellations i \<noteq> None"
    by (simp add: q')
  from process_experiment_cancellations_all_or_nothing[OF d] a
  have 1: "fst (process_experiment_cancellations two_cancellations) = None"
    and 2: "dict_keys (submitted_experiments (snd (process_experiment_cancellations two_cancellations)))
              = [''c'']"
    by (simp_all add: q k)
  from process_experiment_cancellations_all_or_nothing[OF d'] b'
  have 3: "dict_keys (submitted_experiments (snd (process_experiment_cancellations mixed_cancellations)))
             = [''a'', ''b'', ''c'']"
    by (simp add: k')
  from d a 1 2 d' b 3 show ?thesis by (simp add: list_all_iff)
qed

lemma delete_all_append:
  "delete_all (xs @ ys) s =
     (case delete_all xs s of (None, s1) \<Rightarrow> delete_all ys s1 | (Some e, s1) \<Rightarrow> (Some e, s1))"
  by (induction xs arbitrary: s) (auto split: sum.splits option.splits prod.splits)

lemma delete_all_duplicate:
  assumes "distinct xs" and "set xs \<subseteq> set (dict_keys (submitted_experiments s))" and "a \<in> set xs"
  shows "delete_all (xs @ a # ys) s =
           (Some (KeyError a),
            s\<lparr>submitted_experiments := filter (\<lambda>x. fst x \<notin> set xs) (submitted_experiments s),
              events := events s @ map Removed xs\<rparr>)"
proof -
  let ?s1 = "s\<lparr>submitted_experiments := filter (\<lambda>x. fst x \<notin> set xs) (submitted_experiments s),
              events := events s @ map Removed xs\<rparr>"
  have "\<not> dict_contains a (submitted_experiments ?s1)"
    using assms(3) by (auto simp: dict_contains_def dict_keys_def)
  then have "delete_all (a # ys) ?s1 = (Some (KeyError a), ?s1)"
    by (simp add: dict_del_def)
  then show ?thesis
    by (simp add: delete_all_append delete_all_ok[OF assms(1,2)])
qed

text \<open>
  Claim C10.  \<open>cancel_experiment\<close> enqueues a registered id whether or not the id is
  queued already, so two requests for one id leave it twice in the queue.  The deletion
  loop of \<open>process_experiment_cancellations\<close> deletes once per occurrence: on a list
  of ids that are not pairwise distinct it raises \<open>KeyError\<close>, and when the ids before
  the second occurrence of an id are distinct and registered it raises at that second
  occurrence, after it has removed the ids before it.  A call of
  \<open>process_experiment_cancellations\<close> returns without error only if the queued ids
  are pairwise distinct and all registered.
\<close>

theorem duplicate_cancellation_raises_KeyError:
  "(dict_contains i (submitted_experiments s)
      \<and> length (experiment_cancellation_queue s) + 1 < queue_maxsize \<longrightarrow>
      Option.bind (cancel_experiment i s) (cancel_experiment i)
        = Some (s\<lparr>experiment_cancellation_queue := experiment_cancellation_queue s @ [i, i]\<rparr>))
   \<and> (\<not> distinct ids \<longrightarrow> (\<exists>k. k \<in> set ids \<and> fst (delete_all ids s) = Some (KeyError k)))
   \<and> (distinct xs \<and> set xs \<subseteq> set (dict_keys (submitted_experiments s)) \<and> a \<in> set xs \<longrightarrow>
        delete_all (xs @ a # ys) s =
          (Some (KeyError a),
           s\<lparr>submitted_experiments := filter (\<lambda>x. fst x \<notin> set xs) (submitted_experiments s),
             events := events s @ map Removed xs\<rparr>))
   \<and> (fst (process_experiment_cancellations s) = None \<longrightarrow>
        distinct (experiment_cancellation_queue s)
        \<and> set (experiment_cancellation_queue s) \<subseteq> set (dict_keys (submitted_experiments s)))"
proof (intro conjI impI)
  assume "dict_contains i (submitted_experiments s)
            \<and> length (experiment_cancellation_queue s) + 1 < queue_maxsize"
  then show "Option.bind (cancel_experiment i s) (cancel_experiment i)
        = Some (s\<lparr>experiment_cancellation_queue := experiment_cancellation_queue s @ [i, i]\<rparr>)"
    by (simp add: cancel_experiment_def)
next
  assume "\<not> distinct ids"
  then have "fst (delete_all ids s) \<noteq> None" by (simp add: delete_all_error)
  then obtain e where "fst (delete_all ids s) = Some e" by auto
  with delete_all_KeyError[of ids s e]
  show "\<exists>k. k \<in> set ids \<and> fst (delete_all ids s) = Some (KeyError k)" by auto
next
  assume "distinct xs \<and> set xs \<subseteq> set (dict_keys (submitted_experiments s)) \<and> a \<in> set xs"
  then show "delete_all (xs @ a # ys) s =
          (Some (KeyError a),
           s\<lparr>submitted_experiments := filter (\<lambda>x. fst x \<notin> set xs) (submitted_experiments s),
             events := events s @ map Removed xs\<rparr>)"
    by (simp add: delete_all_duplicate)
next
  assume ok: "fst (process_experiment_cancellations s) = None"
  let ?q = "experiment_cancellation_queue s"
  let ?s0 = "s\<lparr>experiment_cancellation_queue := []\<rparr>"
  have p: "process_experiment_cancellations s = cancel_drained ?q ?s0"
    by (simp add: process_experiment_cancellations_def drain_queue_all)
  have "distinct ?q \<and> set ?q \<subseteq> set (dict_keys (submitted_experiments s))"
  proof (cases "?q = []")
    case True
    then show ?thesis by simp
  next
    case False
    obtain r s1 where g: "gather_cancel ?q ?s0 = (r, s1)" by (cases "gather_cancel ?q ?s0")
    from gather_cancel_frame[of ?q ?s0] g
    have k1: "dict_keys (submitted_experiments s1) = dict_keys (submitted_experiments s)" by simp
    from ok False g have "r = None" and "fst (delete_all ?q s1) = None"
      unfolding p by (auto simp: cancel_drained_def split: option.splits)
    then show ?thesis by (simp add: delete_all_error k1)
  qed
  then show "distinct ?q" and "set ?q \<subseteq> set (dict_keys (submitted_experiments s))" by simp_all
qed

text \<open>
  Two requests for \<open>a\<close>, then a call: both cancellations succeed, the first deletion
  removes \<open>a\<close> and the second raises \<open>KeyError\<close>.
\<close>

theorem duplicate_cancellation_raises_KeyError_witness:
  "Option.bind (cancel_experiment ''a'' (duplicate_cancellation\<lparr>experiment_cancellation_queue := []\<rparr>))
      (cancel_experiment ''a'')
     = Some duplicate_cancellation
   \<and> \<not> distinct (experiment_cancellation_queue duplicate_cancellation)
   \<and> delete_all [''a'', ''a''] duplicate_cancellation
       = (Some (KeyError ''a''),
          duplicate_cancellation
            \<lparr>submitted_experiments := [(''b'', running_executor ''b'' 1)],
             events := [Removed ''a'']\<rparr>)
   \<and> fst (process_experiment_cancellations duplicate_cancellation) = Some (KeyError ''a'')
   \<and> dict_keys (submitted_experiments (snd (process_experiment_cancellations duplicate_cancellation)))
       = [''b'']"
proof -
  let ?e = "duplicate_cancellation\<lparr>experiment_cancellation_queue := []\<rparr>"
  have h1: "dict_contains ''a'' (submitted_experiments ?e)
            \<and> length (experiment_cancellation_queue ?e) + 1 < queue_maxsize"
    by (simp add: duplicate_cancellation_def dict_contains_def dict_keys_def queue_maxsize_def)
  have e1: "?e\<lparr>experiment_cancellation_queue := experiment_cancellation_queue ?e @ [''a'', ''a'']\<rparr>
              = duplicate_cancellation"
    by (simp add: duplicate_cancellation_def)
  have h3: "distinct [''a''] \<and> set [''a''] \<subseteq> set (dict_keys (submitted_experiments duplicate_cancellation))
            \<and> ''a'' \<in> set [''a'']"
    by (simp add: duplicate_cancellation_def dict_keys_def)
  have nd: "\<not> distinct (experiment_cancellation_queue duplicate_cancellation)"
    by (simp add: duplicate_cancellation_def)
  from duplicate_cancellation_raises_KeyError[of "''a''" ?e "[]" "[''a'']" "''a''" "[]"] h1
  have 1: "Option.bind (cancel_experiment ''a'' ?e) (cancel_experiment ''a'') = Some duplicate_cancellation"
    unfolding e1 by blast
  from duplicate_cancellation_raises_KeyError
         [of "''a''" duplicate_cancellation "[]" "[''a'']" "''a''" "[]"] h3
  have "delete_all ([''a''] @ ''a'' # []) duplicate_cancellation
       = (Some (KeyError ''a''),
          duplicate_cancellation
            \<lparr>submitted_experiments :=
               filter (\<lambda>x. fst x \<notin> set [''a'']) (submitted_experiments duplicate_cancellation),
             events := events duplicate_cancellation @ map Removed [''a'']\<rparr>)"
    by blast
  then have 2: "delete_all [''a'', ''a''] duplicate_cancellation
       = (Some (KeyError ''a''),
          duplicate_cancellation
            \<lparr>submitted_experiments := [(''b'', running_executor ''b'' 1)],
             events := [Removed ''a'']\<rparr>)"
    by (simp add: duplicate_cancellation_def)
  have 3: "fst (process_experiment_cancellations duplicate_cancellation) = Some (KeyError ''a'')
           \<and> dict_keys (submitted_experiments (snd (process_experiment_cancellations duplicate_cancellation)))
       = [''b'']"
    by (simp add: duplicate_cancellation_def running_executor_def
        process_experiment_cancellations_def cancel_drained_def gather_cancel_Cons
        cancelled_state_def store_executor_def log_event_def dict_contains_def dict_keys_def
        dict_del_def dict_pop_def)
  from 1 nd 2 3 show ?thesis by simp
qed


section \<open>Properties of the loading service\<close>

subsection \<open>Sequences of steps and usage checks\<close>

lemma in_sequence_fst_Cons:
  "fst (in_sequence (p # ps) st) =
     (case fst (p st) of Some e \<Rightarrow> Some e | None \<Rightarrow> fst (in_sequence ps (snd (p st))))"
  by (simp split: prod.splits option.splits)

lemma in_sequence_snd_Cons:
  "snd (in_sequence (p # ps) st) =
     (case fst (p st) of Some e \<Rightarrow> snd (p st) | None \<Rightarrow> snd (in_sequence ps (snd (p st))))"
  by (simp split: prod.splits option.splits)

lemma check_all_Cons:
  "in_sequence (check_lab_usage l # map check_lab_usage labs) (w, tr) =
     (case lab_usage l w of
        Some e \<Rightarrow> (Some e, (w, tr @ [Check_lab_usage l]))
      | None \<Rightarrow> in_sequence (map check_lab_usage labs) (w, tr @ [Check_lab_usage l]))"
  by (simp add: check_lab_usage_def record_call_def split: option.splits)

lemma check_all_world: "fst (snd (in_sequence (map check_lab_usage labs) (w, tr))) = w"
  by (induction labs arbitrary: tr)
     (simp_all add: check_all_Cons del: in_sequence.simps(2) split: option.splits)


lemma check_all_pass:
  "(fst (in_sequence (map check_lab_usage labs) (w, tr)) = None)
     = (\<forall>l \<in> set labs. lab_usage l w = None)"
proof (induction labs arbitrary: tr)
  case Nil
  then show ?case by simp
next
  case (Cons l labs)
  show ?case
    by (cases "lab_usage l w") (simp_all add: check_all_Cons Cons.IH del: in_sequence.simps(2))
qed

lemma check_all_pass_trace:
  "\<forall>l \<in> set labs. lab_usage l w = None \<Longrightarrow>
   in_sequence (map check_lab_usage labs) (w, tr) = (None, (w, tr @ map Check_lab_usage labs))"
proof (induction labs arbitrary: tr)
  case Nil
  then show ?case by simp
next
  case (Cons l labs)
  then show ?case by (simp add: check_all_Cons del: in_sequence.simps(2))
qed





subsection \<open>Unloading labs that are in use\<close>






subsection \<open>The calls a step records\<close>

lemma only_calls_collaborator_call: "P c \<Longrightarrow> only_calls P (collaborator_call c f)"
  by (auto simp: only_calls_def collaborator_call_def record_call_def split: sum.splits)

lemma only_calls_check: "P (Check_lab_usage l) \<Longrightarrow> only_calls P (check_lab_usage l)"
  by (simp add: only_calls_def check_lab_usage_def record_call_def)

lemma only_calls_in_sequence:
  "\<forall>p \<in> set ps. only_calls P p \<Longrightarrow> only_calls P (in_sequence ps)"
proof (induction ps)
  case Nil
  then show ?case by (simp add: only_calls_def)
next
  case (Cons p ps)
  then have p: "only_calls P p" and ps: "only_calls P (in_sequence ps)" by simp_all
  show ?case
    unfolding only_calls_def
  proof
    fix st
    from p obtain cs where cs: "snd (snd (p st)) = snd st @ cs" "list_all P cs"
      unfolding only_calls_def by blast
    from ps obtain ds where ds: "snd (snd (in_sequence ps (snd (p st)))) = snd (snd (p st)) @ ds"
      "list_all P ds"
      unfolding only_calls_def by blast
    show "\<exists>cs. snd (snd (in_sequence (p # ps) st)) = snd st @ cs \<and> list_all P cs"
    proof (cases "fst (p st)")
      case None
      with cs ds have "snd (snd (in_sequence (p # ps) st)) = snd st @ (cs @ ds)"
        by (simp add: in_sequence_snd_Cons del: in_sequence.simps(2))
      with cs ds show ?thesis by (intro exI[of _ "cs @ ds"]) simp
    next
      case (Some e)
      with cs show ?thesis
        by (intro exI[of _ cs]) (simp add: in_sequence_snd_Cons del: in_sequence.simps(2))
    qed
  qed
qed

lemma only_calls_with_loading_lock:
  assumes "P Lock_acquire" and "P Lock_release" and "only_calls P body"
  shows "only_calls P (with_loading_lock body)"
  unfolding only_calls_def
proof
  fix st
  from assms(3) obtain cs where
    "snd (snd (body (record_call Lock_acquire st))) = snd (record_call Lock_acquire st) @ cs"
    "list_all P cs"
    unfolding only_calls_def by blast
  with assms(1,2)
  show "\<exists>cs. snd (snd (with_loading_lock body st)) = snd st @ cs \<and> list_all P cs"
    by (intro exI[of _ "Lock_acquire # cs @ [Lock_release]"])
       (simp add: with_loading_lock_def record_call_def case_prod_unfold Let_def)
qed

lemma only_calls_load_experiments:
  "(\<And>ts. P (Cm_load_experiments ts)) \<Longrightarrow> only_calls P (load_experiments C ts)"
  using only_calls_collaborator_call[of P "Cm_load_experiments ts" "cm_load_experiments C ts"]
  by (auto simp: only_calls_def load_experiments_def)

lemma only_calls_reload_lab_plugins: "only_calls is_plugin_call (reload_lab_plugins C l)"
  unfolding only_calls_def
proof
  fix st
  show "\<exists>cs. snd (snd (reload_lab_plugins C l st)) = snd st @ cs \<and> list_all is_plugin_call cs"
  proof (cases "read_lab_config C l (fst st)")
    case (Inl e)
    then show ?thesis
      by (intro exI[of _ "[Read_lab_config l]"]) (simp add: reload_lab_plugins_def record_call_def)
  next
    case (Inr dts)
    have "only_calls is_plugin_call
            (in_sequence (map (\<lambda>device_type. collaborator_call (Reload_plugin device_type)
                                 (reload_plugin C device_type)) (remdups dts)))"
      by (rule only_calls_in_sequence) (auto intro: only_calls_collaborator_call)
    then obtain cs where
      "snd (snd (in_sequence (map (\<lambda>device_type. collaborator_call (Reload_plugin device_type)
                                 (reload_plugin C device_type)) (remdups dts))
                   (record_call (Read_lab_config l) st)))
         = snd (record_call (Read_lab_config l) st) @ cs" "list_all is_plugin_call cs"
      unfolding only_calls_def by blast
    with Inr show ?thesis
      by (intro exI[of _ "Read_lab_config l # cs"]) (simp add: reload_lab_plugins_def record_call_def)
  qed
qed

lemma in_sequence_success_trace:
  "list_all2 records_on_success ps css \<Longrightarrow> fst (in_sequence ps st) = None \<Longrightarrow>
   snd (snd (in_sequence ps st)) = snd st @ concat css"
proof (induction ps css arbitrary: st rule: list_all2_induct)
  case Nil
  then show ?case by simp
next
  case (Cons p ps cs css)
  from Cons.prems have f: "fst (p st) = None" and r: "fst (in_sequence ps (snd (p st))) = None"
    by (auto simp: in_sequence_fst_Cons simp del: in_sequence.simps(2) split: option.splits)
  from Cons.hyps(1) f have "snd (snd (p st)) = snd st @ cs"
    unfolding records_on_success_def by blast
  with Cons.IH[OF r] f show ?case
    by (simp add: in_sequence_snd_Cons del: in_sequence.simps(2))
qed

lemma records_collaborator_call: "records_on_success (collaborator_call c f) [c]"
  by (auto simp: records_on_success_def collaborator_call_def record_call_def split: sum.splits)

lemma records_load_experiments:
  "records_on_success (load_experiments C ts) (if ts = [] then [] else [Cm_load_experiments ts])"
  using records_collaborator_call[of "Cm_load_experiments ts" "cm_load_experiments C ts"]
  by (auto simp: records_on_success_def load_experiments_def)

lemma records_checks:
  "records_on_success (in_sequence (map check_lab_usage labs)) (map Check_lab_usage labs)"
  unfolding records_on_success_def
proof (intro allI impI)
  fix st :: loading_state
  assume "fst (in_sequence (map check_lab_usage labs) st) = None"
  then have "\<forall>l \<in> set labs. lab_usage l (fst st) = None"
    using check_all_pass[of labs "fst st" "snd st"] by simp
  from check_all_pass_trace[OF this, of "snd st"]
  show "snd (snd (in_sequence (map check_lab_usage labs) st)) = snd st @ map Check_lab_usage labs"
    by simp
qed

subsection \<open>The usage check and the loading lock\<close>

lemma unload_labs_Cons:
  "unload_labs C (l # labs) (w, tr) =
     (case lab_usage l w of
        Some e \<Rightarrow> (Some e, (w, tr @ [Check_lab_usage l]))
      | None \<Rightarrow>
          in_sequence
            [in_sequence (map check_lab_usage labs),
             with_loading_lock
               (in_sequence
                  [collaborator_call (Cm_unload_labs (l # labs)) (cm_unload_labs C (l # labs)),
                   collaborator_call (Update_devices_unloaded (l # labs))
                     (update_devices_unloaded C (l # labs)),
                   collaborator_call (Update_containers_unloaded (l # labs))
                     (update_containers_unloaded C (l # labs))])]
            (w, tr @ [Check_lab_usage l]))"
  by (simp add: unload_labs_def check_lab_usage_def record_call_def split: option.splits)

lemma unload_labs_first_call:
  "\<exists>cs. snd (snd (unload_labs C (l # labs) (w, tr))) = tr @ Check_lab_usage l # cs"
proof (cases "lab_usage l w")
  case (Some e)
  then show ?thesis by (simp add: unload_labs_Cons)
next
  case None
  let ?rest = "in_sequence
            [in_sequence (map check_lab_usage labs),
             with_loading_lock
               (in_sequence
                  [collaborator_call (Cm_unload_labs (l # labs)) (cm_unload_labs C (l # labs)),
                   collaborator_call (Update_devices_unloaded (l # labs))
                     (update_devices_unloaded C (l # labs)),
                   collaborator_call (Update_containers_unloaded (l # labs))
                     (update_containers_unloaded C (l # labs))])]"
  have "only_calls (\<lambda>c. True) ?rest"
    by (intro only_calls_in_sequence only_calls_with_loading_lock ballI)
       (auto intro!: only_calls_in_sequence only_calls_with_loading_lock only_calls_collaborator_call
          only_calls_check)
  then have "\<exists>cs. snd (snd (?rest (w, tr @ [Check_lab_usage l])))
                 = snd (w, tr @ [Check_lab_usage l]) @ cs \<and> list_all (\<lambda>c. True) cs"
    unfolding only_calls_def by (rule allE)
  then obtain cs where "snd (snd (?rest (w, tr @ [Check_lab_usage l])))
                 = snd (w, tr @ [Check_lab_usage l]) @ cs" by blast
  with None show ?thesis by (simp add: unload_labs_Cons del: in_sequence.simps)
qed

text \<open>
  Claim C1 does not hold of \<open>unload_labs\<close>.  The first thing a call of
  \<open>unload_labs\<close> on a set of labs that is not empty does is a usage check, made before
  the loading lock is taken: the record of its calls never has every check under the
  lock.  For one lab the calls are the check, then the lock, the three unloading calls
  and the release.  \<open>reload_labs\<close> makes the same check while it holds the lock.
\<close>

theorem unload_labs_checks_outside_lock:
  "\<not> checks_under_lock 0 (snd (snd (unload_labs C (lab_id # labs) (w, []))))
   \<and> snd (snd (unload_labs lab_collaborators [''lab1''] (idle_world, [])))
       = [Check_lab_usage ''lab1'', Lock_acquire, Cm_unload_labs [''lab1''],
          Update_devices_unloaded [''lab1''], Update_containers_unloaded [''lab1''],
          Lock_release]
   \<and> snd (snd (reload_labs lab_collaborators [''lab1''] (idle_world, [])))
       = [Read_lab_config ''lab1'', Reload_plugin ''heater'', Reload_plugin ''pump'',
          Lock_acquire, Check_lab_usage ''lab1'', Cm_unload_labs [''lab1''],
          Update_devices_unloaded [''lab1''], Update_containers_unloaded [''lab1''],
          Cm_load_labs [''lab1''], Update_devices_loaded [''lab1''],
          Update_containers_loaded [''lab1''], Cm_load_experiments [''exp''], Lock_release]
   \<and> checks_under_lock 0 (snd (snd (reload_labs lab_collaborators [''lab1''] (idle_world, []))))"
proof -
  from unload_labs_first_call[of C lab_id labs w "[]"]
  have 1: "\<not> checks_under_lock 0 (snd (snd (unload_labs C (lab_id # labs) (w, []))))"
    by auto
  have u: "lab_usage ''lab1'' idle_world = None"
    by (simp add: lab_usage_def check_experiments_using_lab_def check_tasks_using_devices_def
          get_experiments_def get_tasks_def idle_world_def)
  have 2: "snd (snd (unload_labs lab_collaborators [''lab1''] (idle_world, [])))
       = [Check_lab_usage ''lab1'', Lock_acquire, Cm_unload_labs [''lab1''],
          Update_devices_unloaded [''lab1''], Update_containers_unloaded [''lab1''],
          Lock_release]"
    by (simp add: unload_labs_def check_lab_usage_def u with_loading_lock_def
          collaborator_call_def record_call_def lab_collaborators_def)
  have 3: "snd (snd (reload_labs lab_collaborators [''lab1''] (idle_world, [])))
       = [Read_lab_config ''lab1'', Reload_plugin ''heater'', Reload_plugin ''pump'',
          Lock_acquire, Check_lab_usage ''lab1'', Cm_unload_labs [''lab1''],
          Update_devices_unloaded [''lab1''], Update_containers_unloaded [''lab1''],
          Cm_load_labs [''lab1''], Update_devices_loaded [''lab1''],
          Update_containers_loaded [''lab1''], Cm_load_experiments [''exp''], Lock_release]"
    by (simp add: reload_labs_def reload_device_plugins_def reload_lab_plugins_def
          check_lab_usage_def with_loading_lock_def collaborator_call_def record_call_def
          lab_collaborators_def load_experiments_def get_experiments_for_labs_def
          lab_usage_def check_experiments_using_lab_def check_tasks_using_devices_def
          get_experiments_def get_tasks_def idle_world_def experiment_packages_def)
  from 1 2 3 show ?thesis by simp
qed

subsection \<open>Reloading labs\<close>

lemma only_calls_reload_device_plugins:
  "only_calls is_plugin_call (reload_device_plugins C lab_types)"
  unfolding reload_device_plugins_def
  by (rule only_calls_in_sequence) (simp add: only_calls_reload_lab_plugins)

lemma reload_labs_plugin_failure:
  assumes "fst (reload_device_plugins C lab_types st) \<noteq> None"
  shows "reload_labs C lab_types st = reload_device_plugins C lab_types st"
proof -
  obtain e st1 where "reload_device_plugins C lab_types st = (Some e, st1)"
    using assms by (cases "reload_device_plugins C lab_types st") auto
  then show ?thesis by (simp add: reload_labs_def)
qed

lemma in_sequence_pair:
  "in_sequence [p, q] st = (case p st of (Some e, st1) \<Rightarrow> (Some e, st1) | (None, st1) \<Rightarrow> q st1)"
  by (cases "p st") (auto split: option.splits prod.splits)

lemma reload_labs_alt:
  "reload_labs C lab_types =
     in_sequence
       [reload_device_plugins C lab_types,
        with_loading_lock
          (\<lambda>st. in_sequence (reload_body C lab_types (get_experiments_for_labs lab_types (fst st))) st)]"
  by (simp only: reload_labs_def reload_body_def Let_def)

lemma reload_labs_after_plugins:
  assumes "reload_device_plugins C lab_types st = (None, (w1, tr1))"
  shows "reload_labs C lab_types st =
           (fst (in_sequence (reload_body C lab_types (get_experiments_for_labs lab_types w1))
                   (w1, tr1 @ [Lock_acquire])),
            fst (snd (in_sequence (reload_body C lab_types (get_experiments_for_labs lab_types w1))
                   (w1, tr1 @ [Lock_acquire]))),
            snd (snd (in_sequence (reload_body C lab_types (get_experiments_for_labs lab_types w1))
                   (w1, tr1 @ [Lock_acquire]))) @ [Lock_release])"
  unfolding reload_labs_alt in_sequence_pair assms
  by (simp add: with_loading_lock_def record_call_def case_prod_unfold Let_def)

lemma reload_body_records:
  "list_all2 records_on_success (reload_body C lab_types deps)
     [map Check_lab_usage lab_types,
      [Cm_unload_labs lab_types], [Update_devices_unloaded lab_types],
      [Update_containers_unloaded lab_types],
      [Cm_load_labs lab_types], [Update_devices_loaded lab_types],
      [Update_containers_loaded lab_types],
      (if deps = [] then [] else [Cm_load_experiments deps])]"
  unfolding reload_body_def
  by (simp add: records_checks records_collaborator_call records_load_experiments)

lemma reload_body_success_trace:
  assumes "fst (in_sequence (reload_body C lab_types deps) st) = None"
  shows "snd (snd (in_sequence (reload_body C lab_types deps) st))
           = snd st @ map Check_lab_usage lab_types @ reload_calls lab_types deps"
  using in_sequence_success_trace[OF reload_body_records assms]
  by (simp add: reload_calls_def)

lemma reload_body_checks:
  "fst (in_sequence (reload_body C lab_types deps) (w, tr)) = None \<Longrightarrow>
   \<forall>l \<in> set lab_types. lab_usage l w = None"
  unfolding reload_body_def
  by (simp add: in_sequence_fst_Cons check_all_pass del: in_sequence.simps(2) split: option.splits)

lemma reload_body_in_use:
  assumes "\<exists>l \<in> set lab_types. lab_usage l w \<noteq> None"
  shows "fst (in_sequence (reload_body C lab_types deps) (w, tr)) \<noteq> None
       \<and> fst (snd (in_sequence (reload_body C lab_types deps) (w, tr))) = w"
proof -
  from assms have "fst (in_sequence (map check_lab_usage lab_types) (w, tr)) \<noteq> None"
    by (simp add: check_all_pass)
  then show ?thesis
    unfolding reload_body_def
    by (auto simp: in_sequence_fst_Cons in_sequence_snd_Cons check_all_world
          simp del: in_sequence.simps(2) split: option.splits)
qed

lemma list_all2_map_same:
  "(\<And>x. x \<in> set xs \<Longrightarrow> R (f x) (g x)) \<Longrightarrow> list_all2 R (map f xs) (map g xs)"
  by (simp add: list_all2_map1 list_all2_map2 list_all2_same)

lemma concat_map_single: "concat (map (\<lambda>x. [f x]) xs) = map f xs"
  by (induction xs) simp_all

lemma records_reload_lab_plugins:
  assumes "\<forall>w. read_lab_config C l w = Inr dts"
  shows "records_on_success (reload_lab_plugins C l)
           (Read_lab_config l # map Reload_plugin (remdups dts))"
  unfolding records_on_success_def
proof (intro allI impI)
  fix st :: loading_state
  let ?ps = "map (\<lambda>device_type. collaborator_call (Reload_plugin device_type)
                    (reload_plugin C device_type)) (remdups dts)"
  let ?st1 = "record_call (Read_lab_config l) st"
  assume "fst (reload_lab_plugins C l st) = None"
  with assms have ok: "fst (in_sequence ?ps ?st1) = None"
    by (simp add: reload_lab_plugins_def)
  have "list_all2 records_on_success ?ps (map (\<lambda>device_type. [Reload_plugin device_type]) (remdups dts))"
    by (rule list_all2_map_same) (rule records_collaborator_call)
  from in_sequence_success_trace[OF this ok]
  have "snd (snd (in_sequence ?ps ?st1)) = snd ?st1 @ map Reload_plugin (remdups dts)"
    by (simp add: concat_map_single)
  with assms show "snd (snd (reload_lab_plugins C l st))
                     = snd st @ Read_lab_config l # map Reload_plugin (remdups dts)"
    by (simp add: reload_lab_plugins_def record_call_def)
qed

lemma reload_device_plugins_success_trace:
  assumes "\<forall>l \<in> set lab_types. \<forall>w. read_lab_config C l w = Inr (device_types l)"
      and "fst (reload_device_plugins C lab_types st) = None"
  shows "snd (snd (reload_device_plugins C lab_types st))
           = snd st @ concat (map (\<lambda>l. Read_lab_config l # map Reload_plugin (remdups (device_types l)))
                                lab_types)"
proof -
  have "list_all2 records_on_success (map (reload_lab_plugins C) lab_types)
          (map (\<lambda>l. Read_lab_config l # map Reload_plugin (remdups (device_types l))) lab_types)"
    using assms(1) by (intro list_all2_map_same records_reload_lab_plugins) simp
  from in_sequence_success_trace[OF this] assms(2) show ?thesis
    by (simp add: reload_device_plugins_def)
qed

text \<open>
  Claim C8.  \<open>reload_labs\<close> first reloads the device plugins of the labs, and this
  part makes plugin calls only: when it succeeds and the labs' configurations read the
  same throughout, it has read the configuration of every lab and reloaded the plugin of
  each of the lab's device types.  If a plugin fails to reload the call ends there, with
  the failure: the lock was not taken and no lab, device, container or experiment call
  was made.  A call that succeeds has, after the plugin calls, taken the lock, checked
  the usage of every lab with no lab in use, unloaded and loaded the labs, and last
  loaded the experiments that it computed under the lock from the configuration as it
  was before the unload.  If a lab is in use the call fails and the world is the one the
  plugin calls left.  Every loaded experiment type whose configured labs include one of
  the labs is among the experiments to reload.
\<close>

theorem reload_labs_follows_algorithm:
  "only_calls is_plugin_call (reload_device_plugins C lab_types)
   \<and> (fst (reload_device_plugins C lab_types st) \<noteq> None \<longrightarrow>
        reload_labs C lab_types st = reload_device_plugins C lab_types st)
   \<and> (fst (reload_labs C lab_types st) = None \<longrightarrow>
        fst (reload_device_plugins C lab_types st) = None
        \<and> (\<forall>l \<in> set lab_types.
              lab_usage l (fst (snd (reload_device_plugins C lab_types st))) = None)
        \<and> snd (snd (reload_labs C lab_types st))
            = snd (snd (reload_device_plugins C lab_types st))
                @ [Lock_acquire] @ map Check_lab_usage lab_types
                @ reload_calls lab_types
                    (get_experiments_for_labs lab_types
                       (fst (snd (reload_device_plugins C lab_types st))))
                @ [Lock_release])
   \<and> (fst (reload_device_plugins C lab_types st) = None
        \<and> (\<exists>l \<in> set lab_types.
              lab_usage l (fst (snd (reload_device_plugins C lab_types st))) \<noteq> None) \<longrightarrow>
        fst (reload_labs C lab_types st) \<noteq> None
        \<and> fst (snd (reload_labs C lab_types st)) = fst (snd (reload_device_plugins C lab_types st)))
   \<and> ((t, c) \<in> set (cfg_experiments w) \<and> l \<in> set lab_types \<and> l \<in> set (config_labs c) \<longrightarrow>
        t \<in> set (get_experiments_for_labs lab_types w))
   \<and> ((\<forall>lab \<in> set lab_types. \<forall>w'. read_lab_config C lab w' = Inr (device_types lab))
        \<and> fst (reload_device_plugins C lab_types st) = None \<longrightarrow>
        snd (snd (reload_device_plugins C lab_types st))
          = snd st @ concat (map (\<lambda>lab. Read_lab_config lab
                                     # map Reload_plugin (remdups (device_types lab)))
                               lab_types))"
proof (intro conjI impI)
  show "only_calls is_plugin_call (reload_device_plugins C lab_types)"
    by (rule only_calls_reload_device_plugins)
next
  assume "fst (reload_device_plugins C lab_types st) \<noteq> None"
  then show "reload_labs C lab_types st = reload_device_plugins C lab_types st"
    by (rule reload_labs_plugin_failure)
next
  assume ok: "fst (reload_labs C lab_types st) = None"
  show p: "fst (reload_device_plugins C lab_types st) = None"
  proof (rule ccontr)
    assume n: "fst (reload_device_plugins C lab_types st) \<noteq> None"
    with ok reload_labs_plugin_failure[OF n] show False by simp
  qed
  obtain w1 tr1 where r: "reload_device_plugins C lab_types st = (None, (w1, tr1))"
    using p by (cases "reload_device_plugins C lab_types st") auto
  let ?deps = "get_experiments_for_labs lab_types w1"
  from ok have b: "fst (in_sequence (reload_body C lab_types ?deps) (w1, tr1 @ [Lock_acquire])) = None"
    by (simp add: reload_labs_after_plugins[OF r])
  from reload_body_checks[OF b]
  show "\<forall>l \<in> set lab_types. lab_usage l (fst (snd (reload_device_plugins C lab_types st))) = None"
    by (simp add: r)
  from reload_body_success_trace[OF b]
  show "snd (snd (reload_labs C lab_types st))
            = snd (snd (reload_device_plugins C lab_types st))
                @ [Lock_acquire] @ map Check_lab_usage lab_types
                @ reload_calls lab_types
                    (get_experiments_for_labs lab_types
                       (fst (snd (reload_device_plugins C lab_types st))))
                @ [Lock_release]"
    by (simp add: reload_labs_after_plugins[OF r] r)
next
  assume a: "fst (reload_device_plugins C lab_types st) = None
        \<and> (\<exists>l \<in> set lab_types.
              lab_usage l (fst (snd (reload_device_plugins C lab_types st))) \<noteq> None)"
  then obtain w1 tr1 where r: "reload_device_plugins C lab_types st = (None, (w1, tr1))"
    by (cases "reload_device_plugins C lab_types st") auto
  with a have "\<exists>l \<in> set lab_types. lab_usage l w1 \<noteq> None" by simp
  from reload_body_in_use[OF this, of C "get_experiments_for_labs lab_types w1" "tr1 @ [Lock_acquire]"]
  show "fst (reload_labs C lab_types st) \<noteq> None"
    and "fst (snd (reload_labs C lab_types st)) = fst (snd (reload_device_plugins C lab_types st))"
    by (simp_all add: reload_labs_after_plugins[OF r] r)
next
  assume "(t, c) \<in> set (cfg_experiments w) \<and> l \<in> set lab_types \<and> l \<in> set (config_labs c)"
  then show "t \<in> set (get_experiments_for_labs lab_types w)"
    by (force simp: get_experiments_for_labs_def)
next
  assume "(\<forall>lab \<in> set lab_types. \<forall>w'. read_lab_config C lab w' = Inr (device_types lab))
        \<and> fst (reload_device_plugins C lab_types st) = None"
  then show "snd (snd (reload_device_plugins C lab_types st))
          = snd st @ concat (map (\<lambda>lab. Read_lab_config lab
                                     # map Reload_plugin (remdups (device_types lab)))
                               lab_types)"
    by (simp add: reload_device_plugins_success_trace)
qed

text \<open>
  Reloading \<open>lab1\<close>: unloading the lab unloads the experiment type \<open>exp\<close>, which
  depends on \<open>lab1\<close> only, and the call loads it again at the end.  Reloading \<open>lab2\<close>:
  the second plugin fails and nothing but plugin calls was made.
\<close>

theorem reload_labs_follows_algorithm_witness:
  "reload_device_plugins lab_collaborators [''lab1''] (idle_world, [])
     = (None, (idle_world\<lparr>device_plugin_reloads := [''heater'', ''pump'']\<rparr>,
               [Read_lab_config ''lab1'', Reload_plugin ''heater'', Reload_plugin ''pump'']))
   \<and> get_experiments_for_labs [''lab1''] idle_world = [''exp'']
   \<and> fst (reload_labs lab_collaborators [''lab1''] (idle_world, [])) = None
   \<and> snd (snd (reload_labs lab_collaborators [''lab1''] (idle_world, [])))
       = [Read_lab_config ''lab1'', Reload_plugin ''heater'', Reload_plugin ''pump'',
          Lock_acquire, Check_lab_usage ''lab1'', Cm_unload_labs [''lab1''],
          Update_devices_unloaded [''lab1''], Update_containers_unloaded [''lab1''],
          Cm_load_labs [''lab1''], Update_devices_loaded [''lab1''],
          Update_containers_loaded [''lab1''], Cm_load_experiments [''exp''], Lock_release]
   \<and> dict_keys (cfg_experiments (fst (snd (reload_labs lab_collaborators [''lab1''] (idle_world, [])))))
       = [''other'', ''exp'']
   \<and> reload_labs lab_collaborators [''lab2''] (idle_world, [])
       = (Some (OtherError ''plugin does not load''),
          (idle_world\<lparr>device_plugin_reloads := [''valve'']\<rparr>,
           [Read_lab_config ''lab2'', Reload_plugin ''valve'', Reload_plugin ''broken'']))"
proof -
  have p1: "reload_device_plugins lab_collaborators [''lab1''] (idle_world, [])
     = (None, (idle_world\<lparr>device_plugin_reloads := [''heater'', ''pump'']\<rparr>,
               [Read_lab_config ''lab1'', Reload_plugin ''heater'', Reload_plugin ''pump'']))"
    by (simp add: reload_device_plugins_def reload_lab_plugins_def collaborator_call_def
          record_call_def lab_collaborators_def idle_world_def)
  have d: "get_experiments_for_labs [''lab1''] idle_world = [''exp'']"
    "get_experiments_for_labs [''lab1''] (idle_world\<lparr>device_plugin_reloads := [''heater'', ''pump'']\<rparr>)
       = [''exp'']"
    by (simp_all add: get_experiments_for_labs_def idle_world_def experiment_packages_def)
  have r1: "fst (reload_labs lab_collaborators [''lab1''] (idle_world, [])) = None"
    and k: "dict_keys (cfg_experiments (fst (snd (reload_labs lab_collaborators [''lab1''] (idle_world, [])))))
       = [''other'', ''exp'']"
    by (simp_all add: reload_labs_def reload_device_plugins_def reload_lab_plugins_def
          check_lab_usage_def with_loading_lock_def collaborator_call_def record_call_def
          lab_collaborators_def load_experiments_def get_experiments_for_labs_def
          lab_usage_def check_experiments_using_lab_def check_tasks_using_devices_def
          get_experiments_def get_tasks_def idle_world_def experiment_packages_def dict_keys_def)
  have p2: "reload_device_plugins lab_collaborators [''lab2''] (idle_world, [])
       = (Some (OtherError ''plugin does not load''),
          (idle_world\<lparr>device_plugin_reloads := [''valve'']\<rparr>,
           [Read_lab_config ''lab2'', Reload_plugin ''valve'', Reload_plugin ''broken'']))"
    by (simp add: reload_device_plugins_def reload_lab_plugins_def collaborator_call_def
          record_call_def lab_collaborators_def idle_world_def)
  note thm1 = reload_labs_follows_algorithm
                [of lab_collaborators "[''lab1'']" "(idle_world, [])" "''exp''" "\<lparr>config_labs = [''lab1'']\<rparr>"
                    idle_world "''lab1''"]
  from thm1 r1 have t1: "snd (snd (reload_labs lab_collaborators [''lab1''] (idle_world, [])))
       = [Read_lab_config ''lab1'', Reload_plugin ''heater'', Reload_plugin ''pump'',
          Lock_acquire, Check_lab_usage ''lab1'', Cm_unload_labs [''lab1''],
          Update_devices_unloaded [''lab1''], Update_containers_unloaded [''lab1''],
          Cm_load_labs [''lab1''], Update_devices_loaded [''lab1''],
          Update_containers_loaded [''lab1''], Cm_load_experiments [''exp''], Lock_release]"
    by (simp add: p1 d reload_calls_def)
  note thm2 = reload_labs_follows_algorithm
                [of lab_collaborators "[''lab2'']" "(idle_world, [])" "''exp''" "\<lparr>config_labs = [''lab1'']\<rparr>"
                    idle_world "''lab1''"]
  from thm2 p2 have f2: "reload_labs lab_collaborators [''lab2''] (idle_world, [])
       = (Some (OtherError ''plugin does not load''),
          (idle_world\<lparr>device_plugin_reloads := [''valve'']\<rparr>,
           [Read_lab_config ''lab2'', Reload_plugin ''valve'', Reload_plugin ''broken'']))"
    by simp
  from p1 d r1 t1 k f2 show ?thesis by simp
qed

end
